theory Spec2Isabelle
  imports Complex_Main
begin

text \<open>
  A model of \<open>src/App.tsx\<close> of the pricing calculator. The file holds the component
  twice: once with a creation dialog and a save button, once autosaving through
  \<open>useDebounceValue\<close>. The calculator, the loader and \<open>upsertItem\<close> are the same in both;
  \<open>isBlankNewItem\<close> is taken from the first, and the handlers, the effect and the state
  of the component from the second, the autosaving one.
\<close>

section \<open>JavaScript numbers\<close>

text \<open>
  A JavaScript number is an IEEE 754 double: a finite value, one of the two infinities, or
  NaN. A finite double is represented by the real number it denotes (the two zeros are one
  value: the program never divides and \<open>===\<close> does not tell them apart). Multiplication
  and addition of finite doubles round the exact result; the rounding function
  \<open>rnd\<close> is a parameter of the arithmetic, so that every statement below holds for
  all rounding behaviour, overflow to an infinity included.
\<close>

datatype jsnum = Fin real | PInf | NInf | NaN

text \<open>\<open>Number.isFinite\<close>.\<close>

fun isFinite :: "jsnum \<Rightarrow> bool" where
  "isFinite (Fin x) = True"
| "isFinite PInf = False"
| "isFinite NInf = False"
| "isFinite NaN = False"

text \<open>\<open>Math.max\<close> of two arguments: NaN if either is NaN, the larger otherwise.\<close>

fun js_max :: "jsnum \<Rightarrow> jsnum \<Rightarrow> jsnum" where
  "js_max NaN b = NaN"
| "js_max a NaN = NaN"
| "js_max PInf b = PInf"
| "js_max a PInf = PInf"
| "js_max NInf b = b"
| "js_max a NInf = a"
| "js_max (Fin x) (Fin y) = Fin (max x y)"

text \<open>The operator \<open>*\<close>: an infinity times zero is NaN.\<close>

fun js_mul :: "(real \<Rightarrow> jsnum) \<Rightarrow> jsnum \<Rightarrow> jsnum \<Rightarrow> jsnum" where
  "js_mul rnd NaN b = NaN"
| "js_mul rnd a NaN = NaN"
| "js_mul rnd (Fin x) (Fin y) = rnd (x * y)"
| "js_mul rnd (Fin x) PInf = (if x = 0 then NaN else if 0 < x then PInf else NInf)"
| "js_mul rnd (Fin x) NInf = (if x = 0 then NaN else if 0 < x then NInf else PInf)"
| "js_mul rnd PInf (Fin y) = (if y = 0 then NaN else if 0 < y then PInf else NInf)"
| "js_mul rnd NInf (Fin y) = (if y = 0 then NaN else if 0 < y then NInf else PInf)"
| "js_mul rnd PInf PInf = PInf"
| "js_mul rnd PInf NInf = NInf"
| "js_mul rnd NInf PInf = NInf"
| "js_mul rnd NInf NInf = PInf"

text \<open>The operator \<open>+\<close> on numbers: opposite infinities add to NaN.\<close>

fun js_add :: "(real \<Rightarrow> jsnum) \<Rightarrow> jsnum \<Rightarrow> jsnum \<Rightarrow> jsnum" where
  "js_add rnd NaN b = NaN"
| "js_add rnd a NaN = NaN"
| "js_add rnd (Fin x) (Fin y) = rnd (x + y)"
| "js_add rnd (Fin x) PInf = PInf"
| "js_add rnd (Fin x) NInf = NInf"
| "js_add rnd PInf (Fin y) = PInf"
| "js_add rnd NInf (Fin y) = NInf"
| "js_add rnd PInf PInf = PInf"
| "js_add rnd PInf NInf = NaN"
| "js_add rnd NInf PInf = NaN"
| "js_add rnd NInf NInf = NInf"

text \<open>\<open>x || 0\<close> on a number: zero and NaN are falsy.\<close>

definition js_or0 :: "jsnum \<Rightarrow> jsnum" where
  "js_or0 v = (if v = NaN \<or> v = Fin 0 then Fin 0 else v)"

text \<open>
  The decimal literals of the source denote the nearest doubles; \<open>0.25\<close> is exact, the
  other two are the fractions below over \<open>2 ^ 54\<close>.
\<close>

definition lit_0_2 :: real where
  "lit_0_2 = 3602879701896397 / 18014398509481984"

definition lit_0_25 :: real where
  "lit_0_25 = 1 / 4"

definition lit_0_3 :: real where
  "lit_0_3 = 5404319552844595 / 18014398509481984"

definition PROFIT_OPTIONS :: "jsnum list" where
  "PROFIT_OPTIONS = [Fin lit_0_2, Fin lit_0_25, Fin lit_0_3]"

section \<open>Items and totals\<close>

text \<open>
  The type \<open>Item\<close>. The field \<open>id\<close> is named \<open>item_id\<close>. The functions below are
  stated on the record scheme, so that they also apply to an item that carries the address
  of its JavaScript object (section on the component).
\<close>

record Item =
  item_id :: string
  name :: string
  quantity :: jsnum
  pricePerItem :: jsnum
  setupFee :: jsnum
  shipping :: jsnum
  profitPercent :: jsnum

datatype NumericField = Quantity | PricePerItem | SetupFee | Shipping

definition createEmptyItem :: Item where
  "createEmptyItem =
     \<lparr>item_id = '''', name = ''Untitled'', quantity = Fin 0, pricePerItem = Fin 0,
      setupFee = Fin 0, shipping = Fin 0, profitPercent = Fin lit_0_2\<rparr>"

record Totals =
  subtotal :: jsnum
  profitValue :: jsnum
  total :: jsnum

definition calculateTotals :: "(real \<Rightarrow> jsnum) \<Rightarrow> 'a Item_scheme \<Rightarrow> Totals" where
  "calculateTotals rnd item =
     (let qty = js_max (Fin 0) (quantity item);
          perItem = js_max (Fin 0) (pricePerItem item);
          setup = js_max (Fin 0) (setupFee item);
          shipping' = js_max (Fin 0) (shipping item);
          subtotal' = js_add rnd (js_add rnd (js_mul rnd qty perItem) setup) shipping';
          profitValue' = js_mul rnd subtotal' (profitPercent item);
          total' = js_add rnd subtotal' profitValue'
      in \<lparr>subtotal = subtotal', profitValue = profitValue', total = total'\<rparr>)"

text \<open>
  \<open>formatCurrency\<close> hands \<open>Number.isFinite(value) ? value : 0\<close> to the formatter of
  \<open>Intl.NumberFormat\<close>, which is the parameter \<open>format\<close>. The formatter prints the
  sign of a negative zero; since the two zeros are one value here, \<open>format (Fin 0)\<close>
  stands for what it prints for either, and nothing below depends on what that is but
  for the zero that \<open>formatCurrency\<close> itself supplies in place of a non-finite value.
\<close>

definition formatCurrency :: "(jsnum \<Rightarrow> string) \<Rightarrow> jsnum \<Rightarrow> string" where
  "formatCurrency format v = format (if isFinite v then v else Fin 0)"

text \<open>
  The calculator as the specification words it: each of the four inputs is clamped to at
  least zero, a negative input counting as zero, and then
  \<open>subtotal = quantity * unitPrice + setupFee + shipping\<close>,
  \<open>profit = subtotal * profitRate\<close>, \<open>total = subtotal + profit\<close>.
\<close>

fun negative :: "jsnum \<Rightarrow> bool" where
  "negative (Fin x) = (x < 0)"
| "negative NInf = True"
| "negative PInf = False"
| "negative NaN = False"

definition clamp0 :: "jsnum \<Rightarrow> jsnum" where
  "clamp0 v = (if negative v then Fin 0 else v)"

definition computeTotals_spec :: "(real \<Rightarrow> jsnum) \<Rightarrow> 'a Item_scheme \<Rightarrow> Totals" where
  "computeTotals_spec rnd item =
     (let s = js_add rnd (js_add rnd (js_mul rnd (clamp0 (quantity item))
                (clamp0 (pricePerItem item))) (clamp0 (setupFee item))) (clamp0 (shipping item));
          p = js_mul rnd s (profitPercent item)
      in \<lparr>subtotal = s, profitValue = p, total = js_add rnd s p\<rparr>)"

section \<open>Strings\<close>

text \<open>
  A string is a list of code units below 256. \<open>String.prototype.trim\<close> removes white space
  and line terminators from both ends; the ones below 256 are tab, line feed, vertical tab,
  form feed, carriage return, space and the no-break space. \<open>toLowerCase\<close> maps \<open>A\<close> to
  \<open>Z\<close> and the capital letters of Latin-1 (all of \<open>0xC0\<close> to \<open>0xDE\<close> but the
  multiplication sign) to the code unit 32 above.
\<close>

definition isWhiteSpace :: "char \<Rightarrow> bool" where
  "isWhiteSpace c = (of_char c \<in> {9, 10, 11, 12, 13, 32, 160 :: nat})"

definition trim :: "string \<Rightarrow> string" where
  "trim s = rev (dropWhile isWhiteSpace (rev (dropWhile isWhiteSpace s)))"

definition lowerChar :: "char \<Rightarrow> char" where
  "lowerChar c =
     (let n = of_char c :: nat
      in if (65 \<le> n \<and> n \<le> 90) \<or> (192 \<le> n \<and> n \<le> 222 \<and> n \<noteq> 215)
         then char_of (n + 32) else c)"

definition toLowerCase :: "string \<Rightarrow> string" where
  "toLowerCase s = map lowerChar s"

text \<open>\<open>a || b\<close> on strings: the empty string is falsy.\<close>

definition str_or :: "string \<Rightarrow> string \<Rightarrow> string" where
  "str_or a b = (if a = [] then b else a)"

section \<open>The blank predicate, upsert and the edit handlers\<close>

definition isBlankNewItem :: "'a Item_scheme \<Rightarrow> bool" where
  "isBlankNewItem item =
     (item_id item = [] \<and>
      toLowerCase (trim (name item)) = ''untitled'' \<and>
      quantity item = Fin 0 \<and>
      pricePerItem item = Fin 0 \<and>
      setupFee item = Fin 0 \<and>
      shipping item = Fin 0)"

text \<open>
  \<open>nanoid()\<close> draws a random identifier. Where the source calls it, the functions below
  take the string that the call returns as the parameter \<open>nid\<close>; it is read only on the
  branch that makes the call.

  \<open>upsertItem\<close> reads the collection from \<open>savedItemsRef.current\<close> and hands the
  updated collection to \<open>persistItems\<close>; here it takes the collection and returns the
  updated one together with \<open>nextItem\<close>.
\<close>

definition upsertItem ::
  "string \<Rightarrow> 'a Item_scheme list \<Rightarrow> 'a Item_scheme \<Rightarrow> 'a Item_scheme list \<times> 'a Item_scheme" where
  "upsertItem nid saved item =
     (let id' = str_or (item_id item) nid;
          nextItem = item\<lparr>item_id := id'\<rparr>;
          exists = list_ex (\<lambda>s. item_id s = id') saved;
          updated = (if exists then map (\<lambda>s. if item_id s = id' then nextItem else s) saved
                     else saved @ [nextItem])
      in (updated, nextItem))"

fun setField :: "NumericField \<Rightarrow> jsnum \<Rightarrow> 'a Item_scheme \<Rightarrow> 'a Item_scheme" where
  "setField Quantity v item = item\<lparr>quantity := v\<rparr>"
| "setField PricePerItem v item = item\<lparr>pricePerItem := v\<rparr>"
| "setField SetupFee v item = item\<lparr>setupFee := v\<rparr>"
| "setField Shipping v item = item\<lparr>shipping := v\<rparr>"

text \<open>The read \<open>item[field]\<close> of a numeric field.\<close>

fun getField :: "NumericField \<Rightarrow> 'a Item_scheme \<Rightarrow> jsnum" where
  "getField Quantity item = quantity item"
| "getField PricePerItem item = pricePerItem item"
| "getField SetupFee item = setupFee item"
| "getField Shipping item = shipping item"

text \<open>
  The updaters that the edit handlers of the autosaving component pass to \<open>setCurrent\<close>.
  \<open>Number\<close> is the conversion of a string to a number, a parameter.
\<close>

definition handleNumberChange ::
  "(string \<Rightarrow> jsnum) \<Rightarrow> string \<Rightarrow> NumericField \<Rightarrow> string \<Rightarrow> 'a Item_scheme \<Rightarrow> 'a Item_scheme" where
  "handleNumberChange Number nid field v prev =
     setField field (js_or0 (Number v)) (prev\<lparr>item_id := str_or (item_id prev) nid\<rparr>)"

definition handleNameChange :: "string \<Rightarrow> string \<Rightarrow> 'a Item_scheme \<Rightarrow> 'a Item_scheme" where
  "handleNameChange nid v prev =
     prev\<lparr>item_id := str_or (item_id prev) nid, name := str_or v ''Untitled''\<rparr>"

definition handleProfitChange ::
  "(string \<Rightarrow> jsnum) \<Rightarrow> string \<Rightarrow> string \<Rightarrow> 'a Item_scheme \<Rightarrow> 'a Item_scheme" where
  "handleProfitChange Number nid v prev =
     (let parsed = Number v
      in prev\<lparr>item_id := str_or (item_id prev) nid,
              profitPercent := (if parsed \<in> set PROFIT_OPTIONS then parsed else Fin lit_0_2)\<rparr>)"

section \<open>Loading the saved items\<close>

text \<open>
  The values \<open>JSON.parse\<close> can return. An object is the list of its own properties, in
  order, with distinct keys.
\<close>

datatype json =
  JNull | JBool bool | JNum jsnum | JStr string | JArr "json list" | JObj "(string \<times> json) list"

datatype error = SecurityError | SyntaxError | TypeError

text \<open>\<open>Array.isArray\<close>.\<close>

fun isArray :: "json \<Rightarrow> bool" where
  "isArray (JArr xs) = True"
| "isArray j = False"

definition digit :: "nat \<Rightarrow> char" where
  "digit d = char_of (48 + d)"

function decimal :: "nat \<Rightarrow> string" where
  "decimal n = (if n < 10 then [digit n] else decimal (n div 10) @ [digit (n mod 10)])"
  by pat_completeness auto
termination
  by (relation "measure (\<lambda>n. n)") auto

declare decimal.simps [simp del]

text \<open>
  The own enumerable properties that a spread \<open>...item\<close> copies: those of an object, the
  indices of an array or of a string, none of a number, a boolean or \<open>null\<close>.
\<close>

fun ownProps :: "json \<Rightarrow> (string \<rightharpoonup> json)" where
  "ownProps (JObj kvs) = map_of kvs"
| "ownProps (JArr xs) = map_of (zip (map decimal [0..<length xs]) xs)"
| "ownProps (JStr s) = map_of (zip (map decimal [0..<length s]) (map (\<lambda>c. JStr [c]) s))"
| "ownProps j = Map.empty"

text \<open>
  The read \<open>item.profitPercent\<close>: a \<open>TypeError\<close> on \<open>null\<close>, the own property of an
  object, and \<open>undefined\<close> (here \<open>None\<close>) on every other value.
\<close>

fun get_profitPercent :: "json \<Rightarrow> error + json option" where
  "get_profitPercent JNull = Inl TypeError"
| "get_profitPercent (JObj kvs) = Inr (map_of kvs ''profitPercent'')"
| "get_profitPercent j = Inr None"

text \<open>The properties of an \<open>Item\<close> object, and those of \<open>createEmptyItem()\<close>.\<close>

definition itemProps :: "'a Item_scheme \<Rightarrow> (string \<times> json) list" where
  "itemProps item =
     [(''id'', JStr (item_id item)), (''name'', JStr (name item)),
      (''quantity'', JNum (quantity item)), (''pricePerItem'', JNum (pricePerItem item)),
      (''setupFee'', JNum (setupFee item)), (''shipping'', JNum (shipping item)),
      (''profitPercent'', JNum (profitPercent item))]"

text \<open>The callback of \<open>parsed.map\<close>.\<close>

definition recoverItem :: "json \<Rightarrow> error + (string \<rightharpoonup> json)" where
  "recoverItem item =
     (case get_profitPercent item of
        Inl e \<Rightarrow> Inl e
      | Inr p \<Rightarrow>
          Inr ((map_of (itemProps createEmptyItem) ++ ownProps item)
                 (''profitPercent'' \<mapsto>
                    (case p of
                       Some (JNum v) \<Rightarrow> if v \<in> set PROFIT_OPTIONS then JNum v else JNum (Fin lit_0_2)
                     | _ \<Rightarrow> JNum (Fin lit_0_2)))))"

text \<open>What \<open>recoverItem\<close> returns on a value other than \<open>null\<close>.\<close>

definition recovered :: "json \<Rightarrow> (string \<rightharpoonup> json)" where
  "recovered x =
     (map_of (itemProps createEmptyItem) ++ ownProps x)
       (''profitPercent'' \<mapsto>
          (case ownProps x ''profitPercent'' of
             Some (JNum v) \<Rightarrow> if v \<in> set PROFIT_OPTIONS then JNum v else JNum (Fin lit_0_2)
           | _ \<Rightarrow> JNum (Fin lit_0_2)))"

text \<open>\<open>Array.prototype.map\<close> with a callback that may throw: the first throw ends it.\<close>

fun mapE :: "('a \<Rightarrow> error + 'b) \<Rightarrow> 'a list \<Rightarrow> error + 'b list" where
  "mapE f [] = Inr []"
| "mapE f (x # xs) =
     (case f x of
        Inl e \<Rightarrow> Inl e
      | Inr y \<Rightarrow> (case mapE f xs of Inl e \<Rightarrow> Inl e | Inr ys \<Rightarrow> Inr (y # ys)))"

text \<open>
  The body of the \<open>try\<close> block. \<open>getItem\<close> is what \<open>localStorage.getItem(STORAGE_KEY)\<close>
  does: it throws, or returns \<open>null\<close> (\<open>None\<close>) or a string. \<open>JSON_parse\<close> is
  \<open>JSON.parse\<close>, which throws a \<open>SyntaxError\<close> or returns a value.
\<close>

definition loadSavedItems_try ::
  "(error + string option) \<Rightarrow> (string \<Rightarrow> error + json) \<Rightarrow> error + (string \<rightharpoonup> json) list" where
  "loadSavedItems_try getItem JSON_parse =
     (case getItem of
        Inl e \<Rightarrow> Inl e
      | Inr None \<Rightarrow> Inr []
      | Inr (Some raw) \<Rightarrow>
          if raw = [] then Inr []
          else (case JSON_parse raw of
                  Inl e \<Rightarrow> Inl e
                | Inr (JArr xs) \<Rightarrow> mapE recoverItem xs
                | Inr _ \<Rightarrow> Inr []))"

text \<open>The \<open>catch\<close> block logs the error and returns the empty array.\<close>

definition loadSavedItems ::
  "(error + string option) \<Rightarrow> (string \<Rightarrow> error + json) \<Rightarrow> (string \<rightharpoonup> json) list" where
  "loadSavedItems getItem JSON_parse =
     (case loadSavedItems_try getItem JSON_parse of Inl e \<Rightarrow> [] | Inr items \<Rightarrow> items)"

section \<open>The autosaving component\<close>

text \<open>
  React and the hook \<open>useDebounceValue\<close> decide whether a state value has changed by the
  identity of the object, not by its fields. An object held by the component is
  therefore an item together with the address at which it was allocated; every object
  literal and every \<open>createEmptyItem()\<close> takes the next free address. The objects are
  never mutated, so that an address determines the fields, and two values of type
  \<open>Obj\<close> are the same object exactly when they are equal.
\<close>

record Obj = Item +
  addr :: nat

definition alloc :: "nat \<Rightarrow> Item \<Rightarrow> Obj" where
  "alloc a item =
     \<lparr>item_id = item_id item, name = name item, quantity = quantity item,
      pricePerItem = pricePerItem item, setupFee = setupFee item, shipping = shipping item,
      profitPercent = profitPercent item, addr = a\<rparr>"

text \<open>What \<open>JSON.stringify\<close> keeps of an object: its fields.\<close>

definition fields_of :: "Obj \<Rightarrow> Item" where
  "fields_of ob =
     \<lparr>item_id = item_id ob, name = name ob, quantity = quantity ob,
      pricePerItem = pricePerItem ob, setupFee = setupFee ob, shipping = shipping ob,
      profitPercent = profitPercent ob\<rparr>"

text \<open>
  The state of the mounted component:
  \<^item> \<open>current\<close>, \<open>savedItems\<close>: the two \<open>useState\<close> cells; \<open>savedItemsRef\<close>,
    \<open>hasMounted\<close>: the two refs;
  \<^item> \<open>debouncedCurrent\<close>, \<open>previousValueRef\<close>: the state cell and the ref inside
    \<open>useDebounceValue\<close>; \<open>debounceTimer\<close>: the trailing call that its debounced setter
    has scheduled, with the latest argument, if any;
  \<^item> \<open>timer\<close>: the \<open>setTimeout(..., 0)\<close> of the last run of the autosave effect, with
    the \<open>debouncedCurrent\<close> it captured, while it has neither fired nor been cleared;
  \<^item> \<open>writes\<close>: the payload of every \<open>localStorage.setItem\<close> so far, oldest first;
  \<^item> \<open>nextAddr\<close>: the next free address; \<open>nanoidCalls\<close>: how often \<open>nanoid()\<close> has
    been called.
\<close>

record App =
  current :: Obj
  savedItems :: "Obj list"
  savedItemsRef :: "Obj list"
  hasMounted :: bool
  debouncedCurrent :: Obj
  previousValueRef :: Obj
  debounceTimer :: "Obj option"
  timer :: "Obj option"
  writes :: "Item list list"
  nextAddr :: nat
  nanoidCalls :: nat

text \<open>
  What the component takes from outside: the conversion \<open>Number\<close> and the identifiers
  that the successive calls of \<open>nanoid()\<close> return.
\<close>

record Env =
  Number :: "string \<Rightarrow> jsnum"
  nanoid :: "nat \<Rightarrow> string"

definition persistItems :: "Obj list \<Rightarrow> App \<Rightarrow> App" where
  "persistItems items s =
     s\<lparr>savedItems := items, savedItemsRef := items, writes := writes s @ [map fields_of items]\<rparr>"

text \<open>
  \<open>upsertItem\<close> inside the component: \<open>nextItem\<close> is a new object, \<open>nanoid()\<close> is
  called when the item has no id, and the updated collection is persisted.
\<close>

definition upsertItem_app :: "Env \<Rightarrow> Obj \<Rightarrow> App \<Rightarrow> App" where
  "upsertItem_app env item s =
     (let (updated, nextItem) =
            upsertItem (nanoid env (nanoidCalls s)) (savedItemsRef s) (item\<lparr>addr := nextAddr s\<rparr>)
      in persistItems updated
           (s\<lparr>nextAddr := Suc (nextAddr s),
              nanoidCalls := (if item_id item = [] then Suc (nanoidCalls s) else nanoidCalls s)\<rparr>))"

text \<open>
  \<open>setCurrent\<close> with one of the edit updaters: the updater builds a new object from the
  previous one.
\<close>

definition edit :: "Env \<Rightarrow> (string \<Rightarrow> Obj \<Rightarrow> Obj) \<Rightarrow> App \<Rightarrow> App" where
  "edit env updater s =
     s\<lparr>current := (updater (nanoid env (nanoidCalls s)) (current s))\<lparr>addr := nextAddr s\<rparr>,
       nextAddr := Suc (nextAddr s),
       nanoidCalls := (if item_id (current s) = [] then Suc (nanoidCalls s) else nanoidCalls s)\<rparr>"

definition handleLoad :: "string \<Rightarrow> App \<Rightarrow> App" where
  "handleLoad i s =
     (case find (\<lambda>saved. item_id saved = i) (savedItems s) of
        None \<Rightarrow> s
      | Some item \<Rightarrow> s\<lparr>current := item\<rparr>)"

definition handleDelete :: "string \<Rightarrow> App \<Rightarrow> App" where
  "handleDelete i s =
     (let filtered = filter (\<lambda>item. item_id item \<noteq> i) (savedItems s);
          s' = persistItems filtered s
      in if item_id (current s) = i
         then s'\<lparr>current := alloc (nextAddr s') createEmptyItem, nextAddr := Suc (nextAddr s')\<rparr>
         else s')"

definition handleNew :: "App \<Rightarrow> App" where
  "handleNew s = s\<lparr>current := alloc (nextAddr s) createEmptyItem, nextAddr := Suc (nextAddr s)\<rparr>"

text \<open>
  The body of \<open>useDebounceValue(current, 15000)\<close>, run at every render: when \<open>current\<close>
  is not the object seen at the previous render, the debounced setter is called with it,
  which restarts the quiet period with this argument.
\<close>

definition useDebounceValue :: "App \<Rightarrow> App" where
  "useDebounceValue s =
     (if previousValueRef s \<noteq> current s
      then s\<lparr>debounceTimer := Some (current s), previousValueRef := current s\<rparr>
      else s)"

text \<open>The condition \<open>isEmpty\<close> of the autosave effect.\<close>

definition isEmpty :: "Obj \<Rightarrow> bool" where
  "isEmpty debounced =
     (item_id debounced = [] \<and>
      toLowerCase (trim (name debounced)) = ''untitled'' \<and>
      quantity debounced = Fin 0 \<and>
      pricePerItem debounced = Fin 0 \<and>
      setupFee debounced = Fin 0 \<and>
      shipping debounced = Fin 0)"

text \<open>
  The autosave effect, which React runs after a render in which \<open>debouncedCurrent\<close> is a
  new object: first the cleanup of its previous run, which clears that run's timeout,
  then its body.
\<close>

definition autosaveEffect :: "App \<Rightarrow> App" where
  "autosaveEffect s =
     (let s' = s\<lparr>timer := None\<rparr>
      in if \<not> hasMounted s' then s'\<lparr>hasMounted := True\<rparr>
         else if isEmpty (debouncedCurrent s') then s'
         else s'\<lparr>timer := Some (debouncedCurrent s')\<rparr>)"

text \<open>
  The quiet period ends: the scheduled call, if any, sets the debounced state to its
  argument. React re-renders, and runs the effect, only if that is a new object.
\<close>

definition debounceElapsed :: "App \<Rightarrow> App" where
  "debounceElapsed s =
     (case debounceTimer s of
        None \<Rightarrow> s
      | Some v \<Rightarrow>
          (let s' = s\<lparr>debounceTimer := None\<rparr>
           in if v = debouncedCurrent s' then s'
              else autosaveEffect (useDebounceValue (s'\<lparr>debouncedCurrent := v\<rparr>))))"

text \<open>The timeout of the effect fires, unless it has been cleared.\<close>

definition timeoutFired :: "Env \<Rightarrow> App \<Rightarrow> App" where
  "timeoutFired env s =
     (case timer s of
        None \<Rightarrow> s
      | Some debounced \<Rightarrow> upsertItem_app env debounced (s\<lparr>timer := None\<rparr>))"

text \<open>
  What can happen to the mounted component: a call of one of its handlers, the end of a
  quiet period, the firing of the effect's timeout. Each is followed by a render.
\<close>

datatype event =
  NumberChange NumericField string
| NameChange string
| ProfitChange string
| Load string
| Delete string
| New
| DebounceElapsed
| TimeoutFired

fun step :: "Env \<Rightarrow> event \<Rightarrow> App \<Rightarrow> App" where
  "step env (NumberChange field v) s =
     useDebounceValue (edit env (\<lambda>nid. handleNumberChange (Number env) nid field v) s)"
| "step env (NameChange v) s = useDebounceValue (edit env (\<lambda>nid. handleNameChange nid v) s)"
| "step env (ProfitChange v) s =
     useDebounceValue (edit env (\<lambda>nid. handleProfitChange (Number env) nid v) s)"
| "step env (Load i) s = useDebounceValue (handleLoad i s)"
| "step env (Delete i) s = useDebounceValue (handleDelete i s)"
| "step env New s = useDebounceValue (handleNew s)"
| "step env DebounceElapsed s = debounceElapsed s"
| "step env TimeoutFired s = useDebounceValue (timeoutFired env s)"

fun run :: "Env \<Rightarrow> event list \<Rightarrow> App \<Rightarrow> App" where
  "run env [] s = s"
| "run env (e # es) s = run env es (step env e s)"

text \<open>
  Mounting: the first render allocates the empty draft and takes the loaded items, read
  at their declared type \<open>Item\<close>, as objects of their own; then the effect runs for the
  first time.
\<close>

fun allocAll :: "nat \<Rightarrow> Item list \<Rightarrow> Obj list" where
  "allocAll a [] = []"
| "allocAll a (item # items) = alloc a item # allocAll (Suc a) items"

definition mount :: "Item list \<Rightarrow> App" where
  "mount loaded =
     (let e = alloc 0 createEmptyItem;
          saved = allocAll 1 loaded
      in autosaveEffect
           \<lparr>current = e, savedItems = saved, savedItemsRef = saved, hasMounted = False,
            debouncedCurrent = e, previousValueRef = e, debounceTimer = None, timer = None,
            writes = [], nextAddr = Suc (length loaded), nanoidCalls = 0\<rparr>)"

subsection \<open>Invariants and kinds of events\<close>

text \<open>
  The state after a render: the hook has seen the current draft, and a quiet period that
  is running carries the current draft.
\<close>

definition rendered :: "App \<Rightarrow> bool" where
  "rendered s =
     (previousValueRef s = current s \<and>
      (debounceTimer s = None \<or> debounceTimer s = Some (current s)))"

text \<open>
  No blank item: in a collection, and in the state (the saved collection, the item that
  a pending timeout of the effect will upsert, and every payload written).
\<close>

definition noBlank :: "'a Item_scheme list \<Rightarrow> bool" where
  "noBlank items = list_all (\<lambda>item. \<not> isBlankNewItem item) items"


text \<open>
  No empty name: in a collection, and in the state (the draft, the saved collection, the
  debounced draft, the arguments of a running quiet period and of a pending timeout, and
  every payload written).
\<close>

definition noEmptyName :: "'a Item_scheme list \<Rightarrow> bool" where
  "noEmptyName items = list_all (\<lambda>item. name item \<noteq> []) items"

definition named :: "App \<Rightarrow> bool" where
  "named s =
     (name (current s) \<noteq> [] \<and> noEmptyName (savedItems s) \<and> noEmptyName (savedItemsRef s) \<and>
      name (debouncedCurrent s) \<noteq> [] \<and>
      (case debounceTimer s of None \<Rightarrow> True | Some v \<Rightarrow> name v \<noteq> []) \<and>
      (case timer s of None \<Rightarrow> True | Some v \<Rightarrow> name v \<noteq> []) \<and>
      list_all noEmptyName (writes s))"

text \<open>
  Every object the handlers can reach has been allocated: its address is below the next
  free one.
\<close>

definition allocated :: "App \<Rightarrow> bool" where
  "allocated s =
     (addr (current s) < nextAddr s \<and> addr (debouncedCurrent s) < nextAddr s \<and>
      list_all (\<lambda>ob. addr ob < nextAddr s) (savedItems s))"

text \<open>The events that set the draft: the edits, a reset and a load.\<close>

fun draftChange :: "event \<Rightarrow> bool" where
  "draftChange (NumberChange field v) = True"
| "draftChange (NameChange v) = True"
| "draftChange (ProfitChange v) = True"
| "draftChange (Load i) = True"
| "draftChange New = True"
| "draftChange e = False"

text \<open>The edits among them.\<close>

fun isEdit :: "event \<Rightarrow> bool" where
  "isEdit (NumberChange field v) = True"
| "isEdit (NameChange v) = True"
| "isEdit (ProfitChange v) = True"
| "isEdit e = False"

section \<open>Examples\<close>

text \<open>Two saved items, for the examples.\<close>

definition itemA :: Item where
  "itemA = createEmptyItem\<lparr>item_id := ''a'', name := ''Mugs''\<rparr>"

definition itemB :: Item where
  "itemB = createEmptyItem\<lparr>item_id := ''b'', name := ''Pens''\<rparr>"

text \<open>Payloads of the durable medium and what \<open>JSON.parse\<close> makes of them, for the examples.\<close>

definition examplePayload :: string where
  \<open>examplePayload = ''[{"name":"Mugs","profitPercent":0.5},7]''\<close>

definition exampleParsed :: json where
  "exampleParsed =
     JArr [JObj [(''name'', JStr ''Mugs''), (''profitPercent'', JNum (Fin (1 / 2)))], JNum (Fin 7)]"

definition emptyNamePayload :: string where
  \<open>emptyNamePayload = ''[{"id":"a","name":""}]''\<close>

definition emptyNameParsed :: json where
  "emptyNameParsed = JArr [JObj [(''id'', JStr ''a''), (''name'', JStr [])]]"

definition exampleParse :: "string \<Rightarrow> error + json" where
  "exampleParse raw =
     (if raw = examplePayload then Inr exampleParsed
      else if raw = emptyNamePayload then Inr emptyNameParsed
      else if raw = ''{}'' then Inr (JObj [])
      else Inl SyntaxError)"

text \<open>The draft after the name and the quantity have been edited, for the examples.\<close>

definition mugs :: Item where
  "mugs = \<lparr>item_id = ''x'', name = ''Mugs'', quantity = Fin 3, pricePerItem = Fin 0,
      setupFee = Fin 0, shipping = Fin 0, profitPercent = Fin lit_0_2\<rparr>"

text \<open>An environment for the examples.\<close>

definition exampleEnv :: Env where
  "exampleEnv = \<lparr>Number = (\<lambda>v. if v = ''3'' then Fin 3 else NaN),
                 nanoid = (\<lambda>n. replicate (Suc n) (CHR ''x''))\<rparr>"

text \<open>
  A state in which a quiet period is running and a timeout of the effect is pending: two
  saved items, the name edited, the quiet period over, then the quantity edited.
\<close>

definition pendingState :: App where
  "pendingState =
     run exampleEnv [NameChange ''Mugs'', DebounceElapsed, NumberChange Quantity ''3'']
       (mount [itemA, itemB])"

text \<open>A saved item whose name is the empty string.\<close>

definition unnamed :: Item where
  "unnamed = itemA\<lparr>name := []\<rparr>"

section \<open>Properties of the calculator\<close>

lemma js_max_0_clamp0: "js_max (Fin 0) v = clamp0 v"
  by (cases v) (simp_all add: clamp0_def max_def)

lemma clamp0_idem: "clamp0 (clamp0 v) = clamp0 v"
  by (cases v) (simp_all add: clamp0_def)

text \<open>
  C5. For every item and every rounding, \<open>calculateTotals\<close> returns what the
  specification's calculator returns: with each of quantity, price per item, setup fee and
  shipping clamped to at least zero, the subtotal is quantity times price plus setup fee
  plus shipping, the profit is the subtotal times the profit rate, and the total is their
  sum. A negative input counts as zero for the computation only: the result is that of the
  item whose four inputs are replaced by their clamped values, and the function returns
  the totals and no item.
\<close>

theorem calculateTotals_refines_spec:
  "calculateTotals rnd item = computeTotals_spec rnd item \<and>
   calculateTotals rnd item =
     calculateTotals rnd
       (item\<lparr>quantity := clamp0 (quantity item), pricePerItem := clamp0 (pricePerItem item),
             setupFee := clamp0 (setupFee item), shipping := clamp0 (shipping item)\<rparr>)"
  by (simp add: calculateTotals_def computeTotals_spec_def js_max_0_clamp0 clamp0_idem Let_def)

text \<open>
  Quantity 3 at 10 each with a negative setup fee and a rate of 0.25: subtotal 30, profit
  7.5, total 37.5.
\<close>

theorem calculateTotals_refines_spec_witness:
  "calculateTotals Fin (createEmptyItem\<lparr>quantity := Fin 3, pricePerItem := Fin 10, setupFee := Fin (- 4), profitPercent := Fin lit_0_25\<rparr>)
     = \<lparr>subtotal = Fin 30, profitValue = Fin (15 / 2), total = Fin (75 / 2)\<rparr>"
  using calculateTotals_refines_spec [of Fin "createEmptyItem\<lparr>quantity := Fin 3, pricePerItem := Fin 10, setupFee := Fin (- 4), profitPercent := Fin lit_0_25\<rparr>"]
  by (simp add: computeTotals_spec_def clamp0_def createEmptyItem_def lit_0_25_def Let_def)

lemma js_mul_nonfinite: "\<not> isFinite a \<or> \<not> isFinite b \<Longrightarrow> \<not> isFinite (js_mul rnd a b)"
  by (cases a; cases b) simp_all

lemma js_add_nonfinite: "\<not> isFinite a \<or> \<not> isFinite b \<Longrightarrow> \<not> isFinite (js_add rnd a b)"
  by (cases a; cases b) simp_all

lemma js_max_nonfinite: "v = NaN \<or> v = PInf \<Longrightarrow> \<not> isFinite (js_max (Fin 0) v)"
  by auto

lemma subtotal_nonfinite:
  assumes "quantity item \<in> {NaN, PInf} \<or> pricePerItem item \<in> {NaN, PInf} \<or>
           setupFee item \<in> {NaN, PInf} \<or> shipping item \<in> {NaN, PInf}"
  shows "\<not> isFinite (subtotal (calculateTotals rnd item))"
proof -
  let ?q = "js_max (Fin 0) (quantity item)" and ?p = "js_max (Fin 0) (pricePerItem item)"
  and ?f = "js_max (Fin 0) (setupFee item)" and ?h = "js_max (Fin 0) (shipping item)"
  from assms have "\<not> isFinite ?q \<or> \<not> isFinite ?p \<or> \<not> isFinite ?f \<or> \<not> isFinite ?h"
    using js_max_nonfinite by blast
  then have "\<not> isFinite (js_add rnd (js_add rnd (js_mul rnd ?q ?p) ?f) ?h)"
    using js_mul_nonfinite js_add_nonfinite by blast
  then show ?thesis by (simp add: calculateTotals_def Let_def)
qed

lemma totals_nonfinite:
  assumes "\<not> isFinite (subtotal (calculateTotals rnd item))"
  shows "\<not> isFinite (profitValue (calculateTotals rnd item)) \<and>
         \<not> isFinite (total (calculateTotals rnd item))"
  using assms js_mul_nonfinite js_add_nonfinite
  by (simp add: calculateTotals_def Let_def)

text \<open>
  C6, as stated, fails: with quantity NaN and a setup fee of 5 the subtotal is NaN, while
  with quantity 0 it is 5.
\<close>

theorem calculateTotals_NaN_counterexample:
  "subtotal (calculateTotals Fin (createEmptyItem\<lparr>quantity := NaN, setupFee := Fin 5\<rparr>)) = NaN \<and>
   subtotal (calculateTotals Fin (createEmptyItem\<lparr>quantity := Fin 0, setupFee := Fin 5\<rparr>)) = Fin 5"
  by (simp add: calculateTotals_def createEmptyItem_def Let_def)

text \<open>
  C6, amended. \<open>calculateTotals\<close> is a total function of the item. A quantity, price,
  setup fee or shipping that is NaN or plus infinity is not replaced by zero: it makes the
  subtotal, the profit and the total non-finite, and it is \<open>formatCurrency\<close> that then
  formats zero in place of the total. Minus infinity is treated as zero, like every
  negative input.
\<close>

theorem calculateTotals_nonfinite:
  "(quantity item \<in> {NaN, PInf} \<or> pricePerItem item \<in> {NaN, PInf} \<or>
    setupFee item \<in> {NaN, PInf} \<or> shipping item \<in> {NaN, PInf} \<longrightarrow>
      \<not> isFinite (subtotal (calculateTotals rnd item)) \<and>
      \<not> isFinite (profitValue (calculateTotals rnd item)) \<and>
      \<not> isFinite (total (calculateTotals rnd item)) \<and>
      formatCurrency format (total (calculateTotals rnd item)) = format (Fin 0)) \<and>
   calculateTotals rnd (item\<lparr>quantity := NInf\<rparr>) = calculateTotals rnd (item\<lparr>quantity := Fin 0\<rparr>) \<and>
   calculateTotals rnd (item\<lparr>pricePerItem := NInf\<rparr>) = calculateTotals rnd (item\<lparr>pricePerItem := Fin 0\<rparr>) \<and>
   calculateTotals rnd (item\<lparr>setupFee := NInf\<rparr>) = calculateTotals rnd (item\<lparr>setupFee := Fin 0\<rparr>) \<and>
   calculateTotals rnd (item\<lparr>shipping := NInf\<rparr>) = calculateTotals rnd (item\<lparr>shipping := Fin 0\<rparr>)"
proof -
  have "calculateTotals rnd (item\<lparr>quantity := NInf\<rparr>) = calculateTotals rnd (item\<lparr>quantity := Fin 0\<rparr>)"
    and "calculateTotals rnd (item\<lparr>pricePerItem := NInf\<rparr>) = calculateTotals rnd (item\<lparr>pricePerItem := Fin 0\<rparr>)"
    and "calculateTotals rnd (item\<lparr>setupFee := NInf\<rparr>) = calculateTotals rnd (item\<lparr>setupFee := Fin 0\<rparr>)"
    and "calculateTotals rnd (item\<lparr>shipping := NInf\<rparr>) = calculateTotals rnd (item\<lparr>shipping := Fin 0\<rparr>)"
    by (simp_all add: calculateTotals_def Let_def)
  moreover have "\<not> isFinite (subtotal (calculateTotals rnd item)) \<and>
      \<not> isFinite (profitValue (calculateTotals rnd item)) \<and>
      \<not> isFinite (total (calculateTotals rnd item)) \<and>
      formatCurrency format (total (calculateTotals rnd item)) = format (Fin 0)"
    if "quantity item \<in> {NaN, PInf} \<or> pricePerItem item \<in> {NaN, PInf} \<or>
        setupFee item \<in> {NaN, PInf} \<or> shipping item \<in> {NaN, PInf}"
    using subtotal_nonfinite [OF that, of rnd] totals_nonfinite [of rnd item]
    by (simp add: formatCurrency_def)
  ultimately show ?thesis by blast
qed

theorem calculateTotals_nonfinite_witness:
  "\<not> isFinite (total (calculateTotals Fin (createEmptyItem\<lparr>pricePerItem := PInf\<rparr>))) \<and>
   total (calculateTotals Fin (createEmptyItem\<lparr>pricePerItem := PInf\<rparr>)) = NaN \<and>
   formatCurrency (\<lambda>v. if v = Fin 0 then ''$0.00'' else ''?'')
     (total (calculateTotals Fin (createEmptyItem\<lparr>pricePerItem := PInf\<rparr>))) = ''$0.00''"
  using calculateTotals_nonfinite [of "createEmptyItem\<lparr>pricePerItem := PInf\<rparr>" Fin
     "\<lambda>v. if v = Fin 0 then ''$0.00'' else ''?''"]
  by (simp add: calculateTotals_def createEmptyItem_def Let_def)

section \<open>Properties of upsert\<close>

lemma map_replace_distinct:
  "distinct (map f xs) \<Longrightarrow> k < length xs \<Longrightarrow> f (xs ! k) = i \<Longrightarrow>
   map (\<lambda>s. if f s = i then y else s) xs = xs[k := y]"
proof (induction xs arbitrary: k)
  case Nil
  then show ?case by simp
next
  case (Cons x xs)
  show ?case
  proof (cases k)
    case 0
    with Cons.prems have "f x = i" and "\<forall>s\<in>set xs. f s \<noteq> i" by (auto simp: image_iff)
    then have "map (\<lambda>s. if f s = i then y else s) xs = xs" by (simp add: map_idI)
    with 0 \<open>f x = i\<close> show ?thesis by simp
  next
    case (Suc j)
    with Cons.prems have "xs ! j \<in> set xs" and "f (xs ! j) = i" by simp_all
    then have "i \<in> f ` set xs" by blast
    with Cons.prems have "f x \<noteq> i" by auto
    with Suc Cons show ?thesis by simp
  qed
qed

lemma upsertItem_exists:
  "list_ex (\<lambda>s. item_id s = str_or (item_id item) nid) saved \<Longrightarrow>
   upsertItem nid saved item =
     (map (\<lambda>s. if item_id s = str_or (item_id item) nid
                then item\<lparr>item_id := str_or (item_id item) nid\<rparr> else s) saved,
      item\<lparr>item_id := str_or (item_id item) nid\<rparr>)"
  by (simp add: upsertItem_def Let_def)

lemma upsertItem_new:
  "\<not> list_ex (\<lambda>s. item_id s = str_or (item_id item) nid) saved \<Longrightarrow>
   upsertItem nid saved item =
     (saved @ [item\<lparr>item_id := str_or (item_id item) nid\<rparr>],
      item\<lparr>item_id := str_or (item_id item) nid\<rparr>)"
  by (simp add: upsertItem_def Let_def)

lemma upsertItem_again:
  assumes "str_or (item_id item') nid' = str_or (item_id item) nid"
    and "item'\<lparr>item_id := str_or (item_id item) nid\<rparr> = item\<lparr>item_id := str_or (item_id item) nid\<rparr>"
  shows "fst (upsertItem nid' (fst (upsertItem nid saved item)) item') = fst (upsertItem nid saved item)"
proof -
  let ?i = "str_or (item_id item) nid"
  let ?n = "item\<lparr>item_id := ?i\<rparr>"
  let ?g = "\<lambda>s. if item_id s = ?i then ?n else s"
  have again: "fst (upsertItem nid' C item') =
      (if list_ex (\<lambda>s. item_id s = ?i) C then map ?g C else C @ [?n])" for C
    by (simp add: upsertItem_def Let_def assms)
  have gg: "map ?g (map ?g C) = map ?g C" for C
    by simp
  show ?thesis
  proof (cases "list_ex (\<lambda>s. item_id s = ?i) saved")
    case True
    then obtain s where s: "s \<in> set saved" "item_id s = ?i"
      by (auto simp: list_ex_iff)
    then have "?g s \<in> set (map ?g saved)" and "item_id (?g s) = ?i"
      by simp_all
    then have "list_ex (\<lambda>s. item_id s = ?i) (map ?g saved)"
      unfolding list_ex_iff by blast
    moreover from True have "fst (upsertItem nid saved item) = map ?g saved"
      by (simp add: upsertItem_exists)
    ultimately show ?thesis
      by (simp only: again gg if_True)
  next
    case False
    then have "map ?g saved = saved"
      by (auto simp: list_ex_iff intro: map_idI)
    then have "map ?g (saved @ [?n]) = saved @ [?n]"
      by simp
    moreover have "list_ex (\<lambda>s. item_id s = ?i) (saved @ [?n])"
      by simp
    moreover from False have "fst (upsertItem nid saved item) = saved @ [?n]"
      by (simp add: upsertItem_new)
    ultimately show ?thesis
      by (simp only: again if_True)
  qed
qed

text \<open>
  C3. \<open>upsertItem\<close> completes the item: an empty id is replaced by the generated
  identifier, every other field is kept. If the collection, whose ids are distinct, holds
  an item with the completed id at position \<open>k\<close>, the result is the collection with
  position \<open>k\<close> replaced by the completed item and every other position unchanged; if no
  item of the collection has the completed id, which is so for a fresh identifier, the
  result is the collection with the completed item appended at the end.
\<close>

theorem upsertItem_replace_or_append:
  "snd (upsertItem nid saved item) = item\<lparr>item_id := (if item_id item = [] then nid else item_id item)\<rparr> \<and>
   (distinct (map item_id saved) \<and> k < length saved \<and>
    item_id (saved ! k) = item_id (snd (upsertItem nid saved item)) \<longrightarrow>
      fst (upsertItem nid saved item) = saved[k := snd (upsertItem nid saved item)]) \<and>
   (item_id (snd (upsertItem nid saved item)) \<notin> set (map item_id saved) \<longrightarrow>
      fst (upsertItem nid saved item) = saved @ [snd (upsertItem nid saved item)])"
proof -
  let ?i = "str_or (item_id item) nid"
  let ?n = "item\<lparr>item_id := ?i\<rparr>"
  have n: "snd (upsertItem nid saved item) = ?n"
    by (simp add: upsertItem_def Let_def)
  have "fst (upsertItem nid saved item) = saved[k := ?n]"
    if "distinct (map item_id saved)" "k < length saved" "item_id (saved ! k) = ?i"
  proof -
    from that have "list_ex (\<lambda>s. item_id s = ?i) saved"
      by (auto simp: list_ex_iff)
    then show ?thesis
      using map_replace_distinct [OF that] by (simp add: upsertItem_def Let_def)
  qed
  moreover have "fst (upsertItem nid saved item) = saved @ [?n]"
    if "?i \<notin> set (map item_id saved)"
    using that by (auto simp: upsertItem_def Let_def list_ex_iff image_iff)
  ultimately show ?thesis
    unfolding n by (simp add: str_or_def)
qed

theorem upsertItem_replace_or_append_witness:
  "distinct (map item_id [itemA, itemB]) \<and> 1 < length [itemA, itemB] \<and>
   item_id ([itemA, itemB] ! 1) = item_id (snd (upsertItem ''n1'' [itemA, itemB] (itemB\<lparr>name := ''Cups''\<rparr>))) \<and>
   fst (upsertItem ''n1'' [itemA, itemB] (itemB\<lparr>name := ''Cups''\<rparr>)) = [itemA, itemB\<lparr>name := ''Cups''\<rparr>] \<and>
   item_id (snd (upsertItem ''n1'' [itemA, itemB] createEmptyItem)) \<notin> set (map item_id [itemA, itemB]) \<and>
   fst (upsertItem ''n1'' [itemA, itemB] createEmptyItem) =
     [itemA, itemB, createEmptyItem\<lparr>item_id := ''n1''\<rparr>]"
  using upsertItem_replace_or_append [of "''n1''" "[itemA, itemB]" "itemB\<lparr>name := ''Cups''\<rparr>" 1]
    upsertItem_replace_or_append [of "''n1''" "[itemA, itemB]" createEmptyItem 0]
  by (simp add: itemA_def itemB_def createEmptyItem_def)

text \<open>
  C4, as stated, fails for an item without an id: each call generates an identifier of
  its own, so the second call appends a second entry.
\<close>

theorem upsertItem_twice_counterexample:
  "fst (upsertItem ''id2'' (fst (upsertItem ''id1'' [] createEmptyItem)) createEmptyItem) =
     [createEmptyItem\<lparr>item_id := ''id1''\<rparr>, createEmptyItem\<lparr>item_id := ''id2''\<rparr>] \<and>
   fst (upsertItem ''id1'' [] createEmptyItem) = [createEmptyItem\<lparr>item_id := ''id1''\<rparr>] \<and>
   fst (upsertItem ''id2'' (fst (upsertItem ''id1'' [] createEmptyItem)) createEmptyItem) \<noteq>
     fst (upsertItem ''id1'' [] createEmptyItem)"
  by (simp add: upsertItem_def str_or_def createEmptyItem_def Let_def)

text \<open>
  C4, amended. For an item that has an id, upserting it a second time leaves the
  collection as the first upsert made it; and so does upserting the completed item that
  the first upsert returned, whatever the item was. Nothing is duplicated or reordered.
\<close>

theorem upsertItem_idempotent:
  "(item_id item \<noteq> [] \<longrightarrow>
      fst (upsertItem nid' (fst (upsertItem nid saved item)) item) = fst (upsertItem nid saved item)) \<and>
   (nid \<noteq> [] \<longrightarrow>
      fst (upsertItem nid' (fst (upsertItem nid saved item)) (snd (upsertItem nid saved item))) =
        fst (upsertItem nid saved item))"
proof -
  have "fst (upsertItem nid' (fst (upsertItem nid saved item)) item) = fst (upsertItem nid saved item)"
    if "item_id item \<noteq> []"
    using that by (intro upsertItem_again) (simp_all add: str_or_def)
  moreover have "fst (upsertItem nid' (fst (upsertItem nid saved item)) (snd (upsertItem nid saved item))) =
        fst (upsertItem nid saved item)"
    if "nid \<noteq> []"
  proof -
    have s: "snd (upsertItem nid saved item) = item\<lparr>item_id := str_or (item_id item) nid\<rparr>"
      by (simp add: upsertItem_def Let_def)
    show ?thesis
      unfolding s using that by (intro upsertItem_again) (simp_all add: str_or_def)
  qed
  ultimately show ?thesis by blast
qed

theorem upsertItem_idempotent_witness:
  "item_id itemB \<noteq> [] \<and> ''n1'' \<noteq> [] \<and>
   fst (upsertItem ''n2'' (fst (upsertItem ''n1'' [itemA] itemB)) itemB) = [itemA, itemB] \<and>
   fst (upsertItem ''n1'' [itemA] itemB) = [itemA, itemB] \<and>
   fst (upsertItem ''n2'' (fst (upsertItem ''n1'' [itemA] createEmptyItem))
          (snd (upsertItem ''n1'' [itemA] createEmptyItem))) =
     [itemA, createEmptyItem\<lparr>item_id := ''n1''\<rparr>]"
  using upsertItem_idempotent [of itemB "''n2''" "''n1''" "[itemA]"]
    upsertItem_idempotent [of createEmptyItem "''n2''" "''n1''" "[itemA]"]
  by (simp add: upsertItem_def str_or_def itemA_def itemB_def createEmptyItem_def Let_def)

section \<open>Properties of the edit handlers\<close>

lemma current_useDebounceValue [simp]: "current (useDebounceValue s) = current s"
  by (simp add: useDebounceValue_def)

lemma nanoidCalls_useDebounceValue [simp]: "nanoidCalls (useDebounceValue s) = nanoidCalls s"
  by (simp add: useDebounceValue_def)

lemma mount_simps:
  "mount loaded =
     \<lparr>current = alloc 0 createEmptyItem, savedItems = allocAll 1 loaded,
      savedItemsRef = allocAll 1 loaded, hasMounted = True,
      debouncedCurrent = alloc 0 createEmptyItem, previousValueRef = alloc 0 createEmptyItem,
      debounceTimer = None, timer = None, writes = [], nextAddr = Suc (length loaded),
      nanoidCalls = 0\<rparr>"
  by (simp add: mount_def autosaveEffect_def Let_def)

text \<open>
  C8. Each of the three edit updaters (a numeric field, the name, the profit selection)
  gives a draft without an id the generated identifier, in the same update that changes
  the field, and leaves the id of a draft that has one unchanged; so after an edit the
  draft has an id, the generated identifier being non-empty. In the component the
  identifier is the next one of the generator, which is used up, and the edited draft is
  a new object.
\<close>

theorem edit_anchors_draft:
  "item_id (handleNumberChange N nid field v prev) = (if item_id prev = [] then nid else item_id prev) \<and>
   item_id (handleNameChange nid v prev) = (if item_id prev = [] then nid else item_id prev) \<and>
   item_id (handleProfitChange N nid v prev) = (if item_id prev = [] then nid else item_id prev) \<and>
   getField field (handleNumberChange N nid field v prev) = js_or0 (N v) \<and>
   name (handleNameChange nid v prev) = (if v = [] then ''Untitled'' else v) \<and>
   profitPercent (handleProfitChange N nid v prev) =
     (if N v \<in> set PROFIT_OPTIONS then N v else Fin lit_0_2) \<and>
   (nid \<noteq> [] \<longrightarrow>
      item_id (handleNumberChange N nid field v prev) \<noteq> [] \<and>
      item_id (handleNameChange nid v prev) \<noteq> [] \<and>
      item_id (handleProfitChange N nid v prev) \<noteq> []) \<and>
   current (step env (NumberChange field v) s) =
     (handleNumberChange (Number env) (nanoid env (nanoidCalls s)) field v (current s))\<lparr>addr := nextAddr s\<rparr> \<and>
   current (step env (NameChange v) s) =
     (handleNameChange (nanoid env (nanoidCalls s)) v (current s))\<lparr>addr := nextAddr s\<rparr> \<and>
   current (step env (ProfitChange v) s) =
     (handleProfitChange (Number env) (nanoid env (nanoidCalls s)) v (current s))\<lparr>addr := nextAddr s\<rparr> \<and>
   nanoidCalls (step env (NumberChange field v) s) =
     (if item_id (current s) = [] then Suc (nanoidCalls s) else nanoidCalls s) \<and>
   nanoidCalls (step env (NameChange v) s) =
     (if item_id (current s) = [] then Suc (nanoidCalls s) else nanoidCalls s) \<and>
   nanoidCalls (step env (ProfitChange v) s) =
     (if item_id (current s) = [] then Suc (nanoidCalls s) else nanoidCalls s)"
  by (cases field) (simp_all add: handleNumberChange_def handleNameChange_def
      handleProfitChange_def str_or_def edit_def Let_def)

theorem edit_anchors_draft_witness:
  "item_id (current (step exampleEnv (NumberChange Quantity ''3'') (mount []))) = ''x'' \<and>
   quantity (current (step exampleEnv (NumberChange Quantity ''3'') (mount []))) = Fin 3 \<and>
   item_id (current (run exampleEnv [NumberChange Quantity ''3'', NameChange ''Mugs''] (mount []))) = ''x'' \<and>
   name (current (run exampleEnv [NumberChange Quantity ''3'', NameChange ''Mugs''] (mount []))) = ''Mugs''"
  using edit_anchors_draft [of "Number exampleEnv" "''x''" Quantity "''3''" "alloc 0 createEmptyItem" exampleEnv "mount []"]
    edit_anchors_draft [of "Number exampleEnv" "''xx''" Quantity "''Mugs''"
      "current (step exampleEnv (NumberChange Quantity ''3'') (mount []))" exampleEnv
      "step exampleEnv (NumberChange Quantity ''3'') (mount [])"]
  by (simp add: mount_simps exampleEnv_def alloc_def createEmptyItem_def handleNumberChange_def
      handleNameChange_def str_or_def js_or0_def)

section \<open>Properties of loading\<close>

lemma digit_not_p: "d < 10 \<Longrightarrow> digit d \<noteq> CHR ''p''"
proof -
  assume "d < 10"
  then have "of_char (digit d) = (48 + d :: nat)"
    by (simp add: digit_def)
  with \<open>d < 10\<close> show ?thesis by auto
qed

lemma decimal_no_p: "CHR ''p'' \<notin> set (decimal n)"
proof (induction n rule: decimal.induct)
  case (1 n)
  show ?case
  proof (cases "n < 10")
    case True
    then show ?thesis using digit_not_p [of n] by (subst decimal.simps) auto
  next
    case False
    moreover have "digit (n mod 10) \<noteq> CHR ''p''" by (rule digit_not_p) simp
    ultimately show ?thesis using 1 by (subst decimal.simps) auto
  qed
qed

lemma index_keys: "''profitPercent'' \<notin> set (map decimal [0..<n])"
proof
  assume "''profitPercent'' \<in> set (map decimal [0..<n])"
  then obtain m where "decimal m = ''profitPercent''" by auto
  then have "CHR ''p'' \<in> set (decimal m)" by simp
  then show False using decimal_no_p by blast
qed

lemma index_props_None:
  assumes "length vs = n"
  shows "map_of (zip (map decimal [0..<n]) vs) ''profitPercent'' = None"
proof -
  have "length (map decimal [0..<n]) = length vs"
    using assms by simp
  then show ?thesis
    using index_keys [of n] by (simp add: map_of_zip_is_None)
qed

lemma get_profitPercent_ownProps:
  "x \<noteq> JNull \<Longrightarrow> get_profitPercent x = Inr (ownProps x ''profitPercent'')"
  by (cases x) (simp_all add: index_props_None)

lemma recoverItem_Inr: "x \<noteq> JNull \<Longrightarrow> recoverItem x = Inr (recovered x)"
  by (simp add: recoverItem_def recovered_def get_profitPercent_ownProps)

lemma recoverItem_JNull: "recoverItem JNull = Inl TypeError"
  by (simp add: recoverItem_def)

lemma mapE_all_Inr:
  "\<forall>x\<in>set xs. f x = Inr (g x) \<Longrightarrow> mapE f xs = Inr (map g xs)"
  by (induction xs) simp_all

lemma mapE_Inl:
  "x \<in> set xs \<Longrightarrow> f x = Inl e \<Longrightarrow> \<exists>e'. mapE f xs = Inl e'"
proof (induction xs)
  case Nil
  then show ?case by simp
next
  case (Cons y ys)
  then show ?case
    by (cases "f y"; cases "mapE f ys") auto
qed

lemma loadSavedItems_array:
  assumes "getItem = Inr (Some raw)" "raw \<noteq> []" "JSON_parse raw = Inr (JArr xs)"
  shows "JNull \<notin> set xs \<Longrightarrow> loadSavedItems getItem JSON_parse = map recovered xs"
    and "JNull \<in> set xs \<Longrightarrow> loadSavedItems getItem JSON_parse = []"
proof -
  have body: "loadSavedItems_try getItem JSON_parse = mapE recoverItem xs"
    using assms by (simp add: loadSavedItems_try_def)
  show "loadSavedItems getItem JSON_parse = map recovered xs" if "JNull \<notin> set xs"
  proof -
    have "recoverItem x = Inr (recovered x)" if "x \<in> set xs" for x
    proof -
      from that \<open>JNull \<notin> set xs\<close> have "x \<noteq> JNull" by blast
      then show ?thesis by (rule recoverItem_Inr)
    qed
    then have "\<forall>x\<in>set xs. recoverItem x = Inr (recovered x)"
      by blast
    then have "mapE recoverItem xs = Inr (map recovered xs)"
      by (rule mapE_all_Inr)
    with body show ?thesis by (simp add: loadSavedItems_def)
  qed
  show "loadSavedItems getItem JSON_parse = []" if n: "JNull \<in> set xs"
  proof -
    obtain e where "mapE recoverItem xs = Inl e"
      using mapE_Inl [of JNull xs recoverItem TypeError] n recoverItem_JNull by blast
    with body show ?thesis by (simp add: loadSavedItems_def)
  qed
qed

lemma recovered_field:
  "f \<noteq> ''profitPercent'' \<Longrightarrow>
   recovered x f = (case ownProps x f of Some v \<Rightarrow> Some v | None \<Rightarrow> map_of (itemProps createEmptyItem) f)"
  by (simp add: recovered_def map_add_def split: option.splits)

lemma recovered_profit_in:
  "\<exists>v\<in>set PROFIT_OPTIONS. recovered x ''profitPercent'' = Some (JNum v)"
proof (cases "\<exists>v\<in>set PROFIT_OPTIONS. ownProps x ''profitPercent'' = Some (JNum v)")
  case True
  then show ?thesis by (auto simp: recovered_def)
next
  case False
  then have "recovered x ''profitPercent'' = Some (JNum (Fin lit_0_2))"
    by (auto simp: recovered_def split: option.splits json.splits)
  then show ?thesis by (simp add: PROFIT_OPTIONS_def)
qed

lemma recovered_profit_kept:
  "ownProps x ''profitPercent'' = Some (JNum v) \<Longrightarrow> v \<in> set PROFIT_OPTIONS \<Longrightarrow>
   recovered x ''profitPercent'' = Some (JNum v)"
  by (simp add: recovered_def)

lemma recovered_profit_coerced:
  "\<forall>v\<in>set PROFIT_OPTIONS. ownProps x ''profitPercent'' \<noteq> Some (JNum v) \<Longrightarrow>
   recovered x ''profitPercent'' = Some (JNum (Fin lit_0_2))"
  by (auto simp: recovered_def split: option.splits json.splits)

text \<open>
  C7. \<open>loadSavedItems\<close> returns a list in every case, and the empty list when reading
  the medium throws, when there is no payload or an empty one, when the payload does not
  parse, and when it parses to a value that is not an array (also when an element of the
  array is \<open>null\<close>). When the payload parses to an array without \<open>null\<close>, there is one
  recovered record for each element, in order: every property the element lacks has the
  value it has in the empty item, every property it has is kept, and the profit rate is
  the element's own if that is one of 0.2, 0.25 and 0.3, and 0.2 otherwise.
\<close>

theorem loadSavedItems_recovers:
  "(getItem = Inl e \<or> getItem = Inr None \<or> getItem = Inr (Some []) \<longrightarrow>
      loadSavedItems getItem JSON_parse = []) \<and>
   (getItem = Inr (Some raw) \<and> JSON_parse raw = Inl e \<longrightarrow> loadSavedItems getItem JSON_parse = []) \<and>
   (getItem = Inr (Some raw) \<and> JSON_parse raw = Inr j \<and> \<not> isArray j \<longrightarrow>
      loadSavedItems getItem JSON_parse = []) \<and>
   (getItem = Inr (Some raw) \<and> raw \<noteq> [] \<and> JSON_parse raw = Inr (JArr xs) \<and> JNull \<in> set xs \<longrightarrow>
      loadSavedItems getItem JSON_parse = []) \<and>
   (getItem = Inr (Some raw) \<and> raw \<noteq> [] \<and> JSON_parse raw = Inr (JArr xs) \<and> JNull \<notin> set xs \<longrightarrow>
      length (loadSavedItems getItem JSON_parse) = length xs \<and>
      (k < length xs \<longrightarrow>
         (f \<noteq> ''profitPercent'' \<longrightarrow>
            (loadSavedItems getItem JSON_parse ! k) f =
              (case ownProps (xs ! k) f of
                 Some v \<Rightarrow> Some v
               | None \<Rightarrow> map_of (itemProps createEmptyItem) f)) \<and>
         (\<exists>v\<in>set PROFIT_OPTIONS.
            (loadSavedItems getItem JSON_parse ! k) ''profitPercent'' = Some (JNum v)) \<and>
         (\<forall>v\<in>set PROFIT_OPTIONS.
            ownProps (xs ! k) ''profitPercent'' = Some (JNum v) \<longrightarrow>
              (loadSavedItems getItem JSON_parse ! k) ''profitPercent'' = Some (JNum v)) \<and>
         ((\<forall>v\<in>set PROFIT_OPTIONS. ownProps (xs ! k) ''profitPercent'' \<noteq> Some (JNum v)) \<longrightarrow>
            (loadSavedItems getItem JSON_parse ! k) ''profitPercent'' = Some (JNum (Fin lit_0_2)))))"
proof -
  have 1: "loadSavedItems getItem JSON_parse = []"
    if "getItem = Inl e \<or> getItem = Inr None \<or> getItem = Inr (Some [])"
    using that by (auto simp: loadSavedItems_def loadSavedItems_try_def)
  have 2: "loadSavedItems getItem JSON_parse = []"
    if "getItem = Inr (Some raw) \<and> JSON_parse raw = Inl e"
    using that by (simp add: loadSavedItems_def loadSavedItems_try_def)
  have 3: "loadSavedItems getItem JSON_parse = []"
    if "getItem = Inr (Some raw) \<and> JSON_parse raw = Inr j \<and> \<not> isArray j"
    using that by (cases j) (simp_all add: loadSavedItems_def loadSavedItems_try_def)
  have 4: "loadSavedItems getItem JSON_parse = []"
    if "getItem = Inr (Some raw) \<and> raw \<noteq> [] \<and> JSON_parse raw = Inr (JArr xs) \<and> JNull \<in> set xs"
    using that loadSavedItems_array(2) by blast
  have 5: "loadSavedItems getItem JSON_parse = map recovered xs"
    if "getItem = Inr (Some raw) \<and> raw \<noteq> [] \<and> JSON_parse raw = Inr (JArr xs) \<and> JNull \<notin> set xs"
    using that loadSavedItems_array(1) by blast
  have 6: "length (loadSavedItems getItem JSON_parse) = length xs \<and>
      (k < length xs \<longrightarrow>
         (f \<noteq> ''profitPercent'' \<longrightarrow>
            (loadSavedItems getItem JSON_parse ! k) f =
              (case ownProps (xs ! k) f of
                 Some v \<Rightarrow> Some v
               | None \<Rightarrow> map_of (itemProps createEmptyItem) f)) \<and>
         (\<exists>v\<in>set PROFIT_OPTIONS.
            (loadSavedItems getItem JSON_parse ! k) ''profitPercent'' = Some (JNum v)) \<and>
         (\<forall>v\<in>set PROFIT_OPTIONS.
            ownProps (xs ! k) ''profitPercent'' = Some (JNum v) \<longrightarrow>
              (loadSavedItems getItem JSON_parse ! k) ''profitPercent'' = Some (JNum v)) \<and>
         ((\<forall>v\<in>set PROFIT_OPTIONS. ownProps (xs ! k) ''profitPercent'' \<noteq> Some (JNum v)) \<longrightarrow>
            (loadSavedItems getItem JSON_parse ! k) ''profitPercent'' = Some (JNum (Fin lit_0_2))))"
    if h: "getItem = Inr (Some raw) \<and> raw \<noteq> [] \<and> JSON_parse raw = Inr (JArr xs) \<and> JNull \<notin> set xs"
  proof -
    have "(loadSavedItems getItem JSON_parse ! k) = recovered (xs ! k)" if "k < length xs"
      using that by (simp add: 5 [OF h])
    then show ?thesis
      using recovered_field [of f "xs ! k"] recovered_profit_in [of "xs ! k"]
        recovered_profit_kept [of "xs ! k"] recovered_profit_coerced [of "xs ! k"]
      by (simp add: 5 [OF h])
  qed
  from 1 2 3 4 6 show ?thesis by blast
qed

theorem loadSavedItems_recovers_witness:
  "loadSavedItems (Inr (Some ''{oops'')) exampleParse = [] \<and>
   loadSavedItems (Inr (Some ''{}'')) exampleParse = [] \<and>
   length (loadSavedItems (Inr (Some examplePayload)) exampleParse) = 2 \<and>
   (loadSavedItems (Inr (Some examplePayload)) exampleParse ! 0) ''name'' = Some (JStr ''Mugs'') \<and>
   (loadSavedItems (Inr (Some examplePayload)) exampleParse ! 0) ''profitPercent'' = Some (JNum (Fin lit_0_2)) \<and>
   (loadSavedItems (Inr (Some examplePayload)) exampleParse ! 1) ''name'' = Some (JStr ''Untitled'')"
  using loadSavedItems_recovers [where getItem = "Inr (Some ''{oops'')" and JSON_parse = exampleParse
      and raw = "''{oops''" and e = SyntaxError]
    loadSavedItems_recovers [where getItem = "Inr (Some ''{}'')" and JSON_parse = exampleParse
      and raw = "''{}''" and j = "JObj []"]
    loadSavedItems_recovers [where getItem = "Inr (Some examplePayload)" and JSON_parse = exampleParse
      and raw = examplePayload and xs = "[JObj [(''name'', JStr ''Mugs''), (''profitPercent'', JNum (Fin (1 / 2)))], JNum (Fin 7)]"
      and k = 0 and f = "''name''"]
    loadSavedItems_recovers [where getItem = "Inr (Some examplePayload)" and JSON_parse = exampleParse
      and raw = examplePayload and xs = "[JObj [(''name'', JStr ''Mugs''), (''profitPercent'', JNum (Fin (1 / 2)))], JNum (Fin 7)]"
      and k = 1 and f = "''name''"]
  by (simp add: exampleParse_def examplePayload_def emptyNamePayload_def exampleParsed_def
      PROFIT_OPTIONS_def lit_0_2_def lit_0_25_def lit_0_3_def itemProps_def createEmptyItem_def)

section \<open>Properties of the autosave\<close>

lemma isEmpty_iff: "isEmpty v = isBlankNewItem v"
  by (simp add: isEmpty_def isBlankNewItem_def)

lemma useDebounceValue_rendered: "rendered s \<Longrightarrow> useDebounceValue s = s"
  by (simp add: useDebounceValue_def rendered_def)

lemma rendered_useDebounceValue:
  "debounceTimer s = None \<or> debounceTimer s = Some (previousValueRef s) \<Longrightarrow>
   rendered (useDebounceValue s)"
  by (auto simp: useDebounceValue_def rendered_def)

lemma useDebounceValue_frame [simp]:
  "savedItems (useDebounceValue s) = savedItems s"
  "savedItemsRef (useDebounceValue s) = savedItemsRef s"
  "writes (useDebounceValue s) = writes s"
  "timer (useDebounceValue s) = timer s"
  "debouncedCurrent (useDebounceValue s) = debouncedCurrent s"
  "hasMounted (useDebounceValue s) = hasMounted s"
  "nextAddr (useDebounceValue s) = nextAddr s"
  by (simp_all add: useDebounceValue_def)

lemma edit_frame [simp]:
  "savedItems (edit env u s) = savedItems s"
  "savedItemsRef (edit env u s) = savedItemsRef s"
  "writes (edit env u s) = writes s"
  "timer (edit env u s) = timer s"
  "debouncedCurrent (edit env u s) = debouncedCurrent s"
  "hasMounted (edit env u s) = hasMounted s"
  "debounceTimer (edit env u s) = debounceTimer s"
  "previousValueRef (edit env u s) = previousValueRef s"
  by (simp_all add: edit_def)

lemma handleLoad_frame [simp]:
  "savedItems (handleLoad i s) = savedItems s"
  "savedItemsRef (handleLoad i s) = savedItemsRef s"
  "writes (handleLoad i s) = writes s"
  "timer (handleLoad i s) = timer s"
  "debouncedCurrent (handleLoad i s) = debouncedCurrent s"
  "hasMounted (handleLoad i s) = hasMounted s"
  "debounceTimer (handleLoad i s) = debounceTimer s"
  "previousValueRef (handleLoad i s) = previousValueRef s"
  by (simp_all add: handleLoad_def split: option.splits)

lemma handleNew_frame [simp]:
  "savedItems (handleNew s) = savedItems s"
  "savedItemsRef (handleNew s) = savedItemsRef s"
  "writes (handleNew s) = writes s"
  "timer (handleNew s) = timer s"
  "debouncedCurrent (handleNew s) = debouncedCurrent s"
  "hasMounted (handleNew s) = hasMounted s"
  "debounceTimer (handleNew s) = debounceTimer s"
  "previousValueRef (handleNew s) = previousValueRef s"
  by (simp_all add: handleNew_def)

lemma rendered_after:
  assumes "rendered s" "debounceTimer s' = debounceTimer s" "previousValueRef s' = previousValueRef s"
  shows "rendered (useDebounceValue s')"
proof (rule rendered_useDebounceValue)
  from assms show "debounceTimer s' = None \<or> debounceTimer s' = Some (previousValueRef s')"
    by (auto simp: rendered_def)
qed

lemma step_draftChange:
  assumes "draftChange e"
  shows "savedItems (step env e s) = savedItems s"
    and "savedItemsRef (step env e s) = savedItemsRef s"
    and "writes (step env e s) = writes s"
    and "timer (step env e s) = timer s"
    and "debouncedCurrent (step env e s) = debouncedCurrent s"
    and "hasMounted (step env e s) = hasMounted s"
    and "rendered s \<Longrightarrow> rendered (step env e s)"
  using assms by (cases e; simp add: rendered_after)+

lemma run_draftChange:
  assumes "list_all draftChange es"
  shows "savedItems (run env es s) = savedItems s \<and>
         savedItemsRef (run env es s) = savedItemsRef s \<and>
         writes (run env es s) = writes s \<and>
         timer (run env es s) = timer s \<and>
         debouncedCurrent (run env es s) = debouncedCurrent s \<and>
         hasMounted (run env es s) = hasMounted s \<and>
         (rendered s \<longrightarrow> rendered (run env es s))"
  using assms
proof (induction es arbitrary: s)
  case Nil
  then show ?case by simp
next
  case (Cons e es)
  then have e: "draftChange e" and es: "list_all draftChange es" by simp_all
  show ?case
    using Cons.IH [OF es, where s = "step env e s"] step_draftChange [OF e, where env = env and s = s]
    by simp
qed

text \<open>What the end of a quiet period and the timeout after it write.\<close>

lemma autosave_writes:
  assumes r: "rendered s" and t: "timer s = None" and m: "hasMounted s"
  shows "writes (step env TimeoutFired (step env DebounceElapsed s)) =
     writes s @
       (if debounceTimer s \<noteq> None \<and> current s \<noteq> debouncedCurrent s \<and> \<not> isBlankNewItem (current s)
        then [map fields_of (fst (upsertItem (nanoid env (nanoidCalls s)) (savedItemsRef s)
                ((current s)\<lparr>addr := nextAddr s\<rparr>)))]
        else [])"
proof (cases "debounceTimer s")
  case None
  with t show ?thesis
    by (simp add: debounceElapsed_def timeoutFired_def)
next
  case (Some v)
  with r have v: "v = current s" and p: "previousValueRef s = current s"
    by (auto simp: rendered_def)
  show ?thesis
  proof (cases "current s = debouncedCurrent s")
    case True
    with Some v t show ?thesis
      by (simp add: debounceElapsed_def timeoutFired_def)
  next
    case False
    have u: "useDebounceValue (s\<lparr>debounceTimer := None, debouncedCurrent := current s\<rparr>) =
        s\<lparr>debounceTimer := None, debouncedCurrent := current s\<rparr>"
      using p by (simp add: useDebounceValue_def)
    show ?thesis
    proof (cases "isBlankNewItem (current s)")
      case True
      with Some v False t m u show ?thesis
        by (simp add: debounceElapsed_def autosaveEffect_def timeoutFired_def isEmpty_iff Let_def)
    next
      case blank: False
      with Some v False t m u show ?thesis
        by (simp add: debounceElapsed_def autosaveEffect_def timeoutFired_def isEmpty_iff
            upsertItem_app_def persistItems_def Let_def split: prod.splits)
    qed
  qed
qed

lemma run_append: "run env (es @ es') s = run env es' (run env es s)"
  by (induction es arbitrary: s) simp_all

lemma upsertItem_member: "snd (upsertItem nid saved item) \<in> set (fst (upsertItem nid saved item))"
proof (cases "list_ex (\<lambda>s. item_id s = str_or (item_id item) nid) saved")
  case True
  then obtain s where "s \<in> set saved" "item_id s = str_or (item_id item) nid"
    by (auto simp: list_ex_iff)
  then have "item\<lparr>item_id := str_or (item_id item) nid\<rparr> \<in>
      (\<lambda>s. if item_id s = str_or (item_id item) nid
           then item\<lparr>item_id := str_or (item_id item) nid\<rparr> else s) ` set saved"
    by (intro image_eqI [where x = s]) simp_all
  with True show ?thesis
    by (simp add: upsertItem_def Let_def)
next
  case False
  then show ?thesis
    by (simp add: upsertItem_def Let_def)
qed

lemma rendered_mount: "rendered (mount loaded)"
  by (simp add: mount_simps rendered_def)

lemma lower_Untitled: "toLowerCase (trim ''Untitled'') = ''untitled''"
  by code_simp

lemma blank_createEmptyItem: "isBlankNewItem createEmptyItem"
  by (simp add: isBlankNewItem_def createEmptyItem_def lower_Untitled)

lemma blank_alloc [simp]: "isBlankNewItem (alloc a item) = isBlankNewItem item"
  by (simp add: isBlankNewItem_def alloc_def)

lemma not_blank_anchored: "item_id item \<noteq> [] \<Longrightarrow> \<not> isBlankNewItem item"
  by (simp add: isBlankNewItem_def)

lemma run1:
  "run exampleEnv [NameChange ''Mugs'', NumberChange Quantity ''3''] (mount []) =
   \<lparr>current = alloc 2 mugs, savedItems = [], savedItemsRef = [], hasMounted = True,
      debouncedCurrent = alloc 0 createEmptyItem, previousValueRef = alloc 2 mugs,
      debounceTimer = Some (alloc 2 mugs), timer = None, writes = [], nextAddr = 3,
      nanoidCalls = 1\<rparr>"
  by (simp add: mount_simps exampleEnv_def edit_def useDebounceValue_def handleNameChange_def
      handleNumberChange_def str_or_def js_or0_def alloc_def createEmptyItem_def mugs_def)

lemma run2:
  "run exampleEnv [NameChange ''Mugs'', New] (mount []) =
   \<lparr>current = alloc 2 createEmptyItem, savedItems = [], savedItemsRef = [], hasMounted = True,
      debouncedCurrent = alloc 0 createEmptyItem, previousValueRef = alloc 2 createEmptyItem,
      debounceTimer = Some (alloc 2 createEmptyItem), timer = None, writes = [], nextAddr = 3,
      nanoidCalls = 1\<rparr>"
  by (simp add: mount_simps exampleEnv_def edit_def useDebounceValue_def handleNameChange_def
      handleNew_def str_or_def alloc_def createEmptyItem_def)

text \<open>
  C1. Take the mounted component after a render, with no timeout of the effect pending,
  and any finite sequence of draft changes (edits, resets, loads) with no end of the quiet
  period between them. When the quiet period then ends and the timeout of the effect
  fires, at most one durable write has been added. It is added exactly when a quiet period
  was running, the last draft is a new object for the debounced state, and it is not
  blank; its payload is the saved collection as it was before the changes with only the
  last draft upserted, so it contains the last draft (with its id completed) and none of
  the intermediate or abandoned values.
\<close>

theorem autosave_coalesces:
  assumes "rendered s" and "timer s = None" and "hasMounted s" and "list_all draftChange es"
  shows "writes (run env (es @ [DebounceElapsed, TimeoutFired]) s) =
     writes s @
       (if debounceTimer (run env es s) \<noteq> None \<and>
           current (run env es s) \<noteq> debouncedCurrent s \<and>
           \<not> isBlankNewItem (current (run env es s))
        then [map fields_of
                (fst (upsertItem (nanoid env (nanoidCalls (run env es s))) (savedItemsRef s)
                   ((current (run env es s))\<lparr>addr := nextAddr (run env es s)\<rparr>)))]
        else []) \<and>
     fields_of ((current (run env es s))
         \<lparr>item_id := str_or (item_id (current (run env es s))) (nanoid env (nanoidCalls (run env es s)))\<rparr>)
       \<in> set (map fields_of
                (fst (upsertItem (nanoid env (nanoidCalls (run env es s))) (savedItemsRef s)
                   ((current (run env es s))\<lparr>addr := nextAddr (run env es s)\<rparr>))))"
proof -
  let ?s = "run env es s"
  let ?nid = "nanoid env (nanoidCalls ?s)"
  let ?item = "(current ?s)\<lparr>addr := nextAddr ?s\<rparr>"
  from run_draftChange [OF assms(4), of env s] assms(1-3)
  have f: "savedItemsRef ?s = savedItemsRef s" "writes ?s = writes s" "timer ?s = None"
    "debouncedCurrent ?s = debouncedCurrent s" "hasMounted ?s" "rendered ?s"
    by simp_all
  have "writes (run env (es @ [DebounceElapsed, TimeoutFired]) s) =
      writes (step env TimeoutFired (step env DebounceElapsed ?s))"
    by (simp add: run_append)
  also have "\<dots> = writes ?s @
       (if debounceTimer ?s \<noteq> None \<and> current ?s \<noteq> debouncedCurrent ?s \<and> \<not> isBlankNewItem (current ?s)
        then [map fields_of (fst (upsertItem ?nid (savedItemsRef ?s) ?item))]
        else [])"
    using f by (intro autosave_writes)
  finally have w: "writes (run env (es @ [DebounceElapsed, TimeoutFired]) s) =
     writes s @
       (if debounceTimer ?s \<noteq> None \<and> current ?s \<noteq> debouncedCurrent s \<and> \<not> isBlankNewItem (current ?s)
        then [map fields_of (fst (upsertItem ?nid (savedItemsRef s) ?item))]
        else [])"
    by (simp only: f)
  have "snd (upsertItem ?nid (savedItemsRef s) ?item) \<in> set (fst (upsertItem ?nid (savedItemsRef s) ?item))"
    by (rule upsertItem_member)
  then have "fields_of (snd (upsertItem ?nid (savedItemsRef s) ?item)) \<in>
      set (map fields_of (fst (upsertItem ?nid (savedItemsRef s) ?item)))"
    by simp
  moreover have "fields_of (snd (upsertItem ?nid (savedItemsRef s) ?item)) =
      fields_of ((current ?s)\<lparr>item_id := str_or (item_id (current ?s)) ?nid\<rparr>)"
    by (simp add: upsertItem_def fields_of_def Let_def)
  ultimately show ?thesis
    using w by simp
qed

theorem autosave_coalesces_witness:
  "rendered (mount []) \<and> timer (mount []) = None \<and> hasMounted (mount []) \<and>
   list_all draftChange [NameChange ''Mugs'', NumberChange Quantity ''3''] \<and>
   list_all draftChange [NameChange ''Mugs'', New] \<and>
   writes (run exampleEnv ([NameChange ''Mugs'', NumberChange Quantity ''3''] @ [DebounceElapsed, TimeoutFired])
     (mount [])) = [[mugs]] \<and>
   writes (run exampleEnv ([NameChange ''Mugs'', New] @ [DebounceElapsed, TimeoutFired]) (mount [])) = []"
proof -
  have h: "rendered (mount [])" "timer (mount []) = None" "hasMounted (mount [])"
    by (simp_all add: rendered_mount) (simp_all add: mount_simps)
  have c1: "list_all draftChange [NameChange ''Mugs'', NumberChange Quantity ''3'']"
    and c2: "list_all draftChange [NameChange ''Mugs'', New]"
    by simp_all
  have b: "\<not> isBlankNewItem (alloc 2 mugs)"
    by (simp add: not_blank_anchored mugs_def)
  have d: "alloc 2 mugs \<noteq> alloc 0 createEmptyItem"
    by (simp add: alloc_def)
  from autosave_coalesces [OF h c1, of exampleEnv]
  have "writes (run exampleEnv ([NameChange ''Mugs'', NumberChange Quantity ''3''] @ [DebounceElapsed, TimeoutFired])
     (mount [])) = [[mugs]]"
    unfolding run1 using b d
    by (simp add: mount_simps upsertItem_def str_or_def fields_of_def alloc_def mugs_def Let_def)
  moreover from autosave_coalesces [OF h c2, of exampleEnv]
  have "writes (run exampleEnv ([NameChange ''Mugs'', New] @ [DebounceElapsed, TimeoutFired]) (mount [])) = []"
    unfolding run2 by (simp add: mount_simps blank_createEmptyItem)
  ultimately show ?thesis
    using h c1 c2 by simp
qed

lemma find_allocated:
  "list_all (\<lambda>ob. addr ob < n) obs \<Longrightarrow> find P obs = Some ob \<Longrightarrow> addr ob < n"
  by (induction obs) (auto split: if_splits)

lemma allocated_draftChange:
  assumes "draftChange e" and "allocated s"
  shows "allocated (step env e s) \<and> nextAddr s \<le> nextAddr (step env e s)"
proof -
  have l: "list_all (\<lambda>ob. addr ob < n) obs \<Longrightarrow> list_all (\<lambda>ob. addr ob < Suc n) obs" for n and obs :: "Obj list"
    by (induction obs) auto
  show ?thesis
  proof (cases e)
    case (Load i)
    show ?thesis
    proof (cases "find (\<lambda>saved. item_id saved = i) (savedItems s)")
      case None
      with Load assms(2) show ?thesis
        by (simp add: handleLoad_def allocated_def)
    next
      case (Some ob)
      with assms(2) have "addr ob < nextAddr s"
        using find_allocated by (auto simp: allocated_def)
      with Load Some assms(2) show ?thesis
        by (simp add: handleLoad_def allocated_def)
    qed
  qed (use assms l in \<open>simp_all add: allocated_def edit_def handleNew_def alloc_def\<close>)
qed

lemma allocated_run:
  "list_all draftChange es \<Longrightarrow> allocated s \<Longrightarrow>
   allocated (run env es s) \<and> nextAddr s \<le> nextAddr (run env es s)"
proof (induction es arbitrary: s)
  case Nil
  then show ?case by simp
next
  case (Cons e es)
  then have e: "draftChange e" and es: "list_all draftChange es" by simp_all
  from allocated_draftChange [OF e Cons.prems(2), of env]
  have 1: "allocated (step env e s)" and 2: "nextAddr s \<le> nextAddr (step env e s)" by simp_all
  from Cons.IH [OF es 1] 2 show ?case by auto
qed

lemma item_id_handleNumberChange:
  "item_id (handleNumberChange N nid field v prev) = str_or (item_id prev) nid"
  by (cases field) (simp_all add: handleNumberChange_def)

lemma isEdit_draftChange: "isEdit e \<Longrightarrow> draftChange e"
  by (cases e) simp_all

lemma edit_arms:
  assumes "isEdit e" and "rendered s" and "allocated s" and "nanoid env (nanoidCalls s) \<noteq> []"
  shows "debounceTimer (step env e s) = Some (current (step env e s)) \<and>
         addr (current (step env e s)) = nextAddr s \<and>
         item_id (current (step env e s)) \<noteq> []"
proof -
  have "addr (previousValueRef s) < nextAddr s"
    using assms(2,3) by (simp add: rendered_def allocated_def)
  then have "previousValueRef s \<noteq> ob\<lparr>addr := nextAddr s\<rparr>" for ob
    by auto
  then show ?thesis
    using assms(1,4)
    by (cases e)
      (simp_all add: useDebounceValue_def edit_def handleNameChange_def handleProfitChange_def
        item_id_handleNumberChange str_or_def Let_def)
qed

text \<open>
  After at least one change, the last of them an edit, the end of the quiet period and the
  timeout write exactly once, provided the generator returns non-empty identifiers.
\<close>

lemma edits_write_once:
  assumes r: "rendered s" and t: "timer s = None" and m: "hasMounted s" and a: "allocated s"
    and es: "list_all draftChange es" and e: "isEdit e" and g: "\<And>n. nanoid env n \<noteq> []"
  shows "writes (run env (es @ [e, DebounceElapsed, TimeoutFired]) s) =
     writes s @
       [map fields_of
          (fst (upsertItem (nanoid env (nanoidCalls (run env (es @ [e]) s))) (savedItemsRef s)
             ((current (run env (es @ [e]) s))\<lparr>addr := nextAddr (run env (es @ [e]) s)\<rparr>)))]"
proof -
  let ?s' = "run env es s"
  let ?s1 = "step env e ?s'"
  from run_draftChange [OF es, of env s] r t m
  have f': "savedItemsRef ?s' = savedItemsRef s" "writes ?s' = writes s" "timer ?s' = None"
    "debouncedCurrent ?s' = debouncedCurrent s" "hasMounted ?s'" "rendered ?s'"
    by simp_all
  from allocated_run [OF es a, of env]
  have a': "allocated ?s'" and n: "nextAddr s \<le> nextAddr ?s'"
    by simp_all
  from step_draftChange [OF isEdit_draftChange [OF e], where env = env and s = ?s'] f'
  have f1: "savedItemsRef ?s1 = savedItemsRef s" "writes ?s1 = writes s" "timer ?s1 = None"
    "debouncedCurrent ?s1 = debouncedCurrent s" "hasMounted ?s1" "rendered ?s1"
    by simp_all
  from edit_arms [OF e f'(6) a' g]
  have d: "debounceTimer ?s1 = Some (current ?s1)" and c: "addr (current ?s1) = nextAddr ?s'"
    and i: "item_id (current ?s1) \<noteq> []"
    by simp_all
  from a n c have "addr (debouncedCurrent s) < addr (current ?s1)"
    by (simp add: allocated_def)
  then have ne: "current ?s1 \<noteq> debouncedCurrent ?s1"
    using f1(4) by auto
  from i have nb: "\<not> isBlankNewItem (current ?s1)"
    by (rule not_blank_anchored)
  have s1: "run env (es @ [e]) s = ?s1"
    by (simp add: run_append)
  have "writes (run env (es @ [e, DebounceElapsed, TimeoutFired]) s) =
      writes (step env TimeoutFired (step env DebounceElapsed ?s1))"
    by (simp add: run_append)
  also have "\<dots> = writes ?s1 @
      [map fields_of (fst (upsertItem (nanoid env (nanoidCalls ?s1)) (savedItemsRef ?s1)
          ((current ?s1)\<lparr>addr := nextAddr ?s1\<rparr>)))]"
    using autosave_writes [OF f1(6) f1(3) f1(5), of env] d ne nb by simp
  finally show ?thesis
    by (simp only: s1 f1)
qed

lemma allocAll_addr: "list_all (\<lambda>ob. addr ob < a + length items) (allocAll a items)"
proof (induction items arbitrary: a)
  case Nil
  then show ?case by simp
next
  case (Cons item items)
  from Cons [of "Suc a"] show ?case
    by (simp add: alloc_def)
qed

lemma allocated_mount: "allocated (mount loaded)"
  using allocAll_addr [of 1 loaded]
  by (simp add: mount_simps allocated_def alloc_def)

lemma rendered_autosaveEffect: "rendered s \<Longrightarrow> rendered (autosaveEffect s)"
  by (simp add: autosaveEffect_def rendered_def Let_def)

lemma hasMounted_autosaveEffect: "hasMounted (autosaveEffect s)"
  by (simp add: autosaveEffect_def Let_def)

lemma rendered_Delete: "rendered s \<Longrightarrow> rendered (step env (Delete i) s)"
proof -
  assume r: "rendered s"
  have "debounceTimer (handleDelete i s) = debounceTimer s"
    and "previousValueRef (handleDelete i s) = previousValueRef s"
    by (simp_all add: handleDelete_def persistItems_def Let_def)
  with r show ?thesis
    by (simp add: rendered_after)
qed

lemma rendered_DebounceElapsed: "rendered s \<Longrightarrow> rendered (step env DebounceElapsed s)"
proof (cases "debounceTimer s")
  case None
  then show "rendered s \<Longrightarrow> rendered (step env DebounceElapsed s)"
    by (simp add: debounceElapsed_def)
next
  case (Some v)
  assume r: "rendered s"
  then have "rendered (s\<lparr>debounceTimer := None, debouncedCurrent := v\<rparr>)"
    and "rendered (s\<lparr>debounceTimer := None\<rparr>)"
    by (simp_all add: rendered_def)
  with Some show ?thesis
    by (simp add: debounceElapsed_def useDebounceValue_rendered rendered_autosaveEffect Let_def)
qed

lemma rendered_TimeoutFired: "rendered s \<Longrightarrow> rendered (step env TimeoutFired s)"
proof -
  assume r: "rendered s"
  have "debounceTimer (timeoutFired env s) = debounceTimer s"
    and "previousValueRef (timeoutFired env s) = previousValueRef s"
    by (simp_all add: timeoutFired_def upsertItem_app_def persistItems_def case_prod_beta
        split: option.splits)
  with r show ?thesis
    by (simp add: rendered_after)
qed

lemma rendered_step: "rendered s \<Longrightarrow> rendered (step env e s)"
proof (cases "draftChange e")
  case True
  then show "rendered s \<Longrightarrow> rendered (step env e s)"
    by (rule step_draftChange(7))
next
  case False
  then show "rendered s \<Longrightarrow> rendered (step env e s)"
    using rendered_Delete rendered_DebounceElapsed rendered_TimeoutFired
    by (cases e) simp_all
qed

lemma hasMounted_step: "hasMounted s \<Longrightarrow> hasMounted (step env e s)"
proof (cases e)
  case (Delete i)
  then show "hasMounted s \<Longrightarrow> hasMounted (step env e s)"
    by (simp add: handleDelete_def persistItems_def Let_def)
next
  case DebounceElapsed
  then show "hasMounted s \<Longrightarrow> hasMounted (step env e s)"
    by (simp add: debounceElapsed_def hasMounted_autosaveEffect Let_def split: option.splits)
next
  case TimeoutFired
  then show "hasMounted s \<Longrightarrow> hasMounted (step env e s)"
    by (simp add: timeoutFired_def upsertItem_app_def persistItems_def case_prod_beta
        split: option.splits)
qed simp_all

text \<open>Every state that the mounted component reaches is one after a render.\<close>

lemma reachable_rendered: "rendered (run env es (mount loaded)) \<and> hasMounted (run env es (mount loaded))"
proof -
  have "rendered s \<and> hasMounted s \<Longrightarrow> rendered (run env es s) \<and> hasMounted (run env es s)" for s
    by (induction es arbitrary: s) (simp_all add: rendered_step hasMounted_step)
  moreover have "rendered (mount loaded) \<and> hasMounted (mount loaded)"
    by (simp add: rendered_mount) (simp add: mount_simps)
  ultimately show ?thesis by blast
qed

lemma blank_fields_of [simp]: "isBlankNewItem (fields_of ob) = isBlankNewItem ob"
  by (simp add: isBlankNewItem_def fields_of_def)

lemma blank_addr [simp]: "isBlankNewItem (ob\<lparr>addr := a\<rparr>) = isBlankNewItem ob"
  by (simp add: isBlankNewItem_def)

lemma noBlank_fields_of [simp]: "noBlank (map fields_of obs) = noBlank obs"
  by (simp add: noBlank_def list_all_iff)


lemma noBlank_allocAll [simp]: "noBlank (allocAll a items) = noBlank items"
  by (induction items arbitrary: a) (simp_all add: noBlank_def)












section \<open>Properties of delete\<close>

lemma handleDelete_other:
  "item_id (current s) \<noteq> i \<Longrightarrow>
   handleDelete i s =
     s\<lparr>savedItems := filter (\<lambda>item. item_id item \<noteq> i) (savedItems s),
       savedItemsRef := filter (\<lambda>item. item_id item \<noteq> i) (savedItems s),
       writes := writes s @ [map fields_of (filter (\<lambda>item. item_id item \<noteq> i) (savedItems s))]\<rparr>"
  by (simp add: handleDelete_def persistItems_def Let_def)

text \<open>
  C10. When \<open>handleDelete\<close> is called with an id other than the draft's, only the saved
  collection changes: the state after the call, and after the render that follows it, is
  the state before with the saved collection (in the state cell, in the ref and in the
  durable write) replaced by the old one without the items whose id is the deleted one,
  the others in their order. The draft stays the very object it was, and so do the
  debounced draft, a running quiet period, a pending timeout of the effect and every
  other component of the state.
\<close>

theorem handleDelete_frame:
  "(item_id (current s) \<noteq> i \<longrightarrow>
      handleDelete i s =
        s\<lparr>savedItems := filter (\<lambda>item. item_id item \<noteq> i) (savedItems s),
          savedItemsRef := filter (\<lambda>item. item_id item \<noteq> i) (savedItems s),
          writes := writes s @ [map fields_of (filter (\<lambda>item. item_id item \<noteq> i) (savedItems s))]\<rparr>) \<and>
   (rendered s \<and> item_id (current s) \<noteq> i \<longrightarrow>
      step env (Delete i) s =
        s\<lparr>savedItems := filter (\<lambda>item. item_id item \<noteq> i) (savedItems s),
          savedItemsRef := filter (\<lambda>item. item_id item \<noteq> i) (savedItems s),
          writes := writes s @ [map fields_of (filter (\<lambda>item. item_id item \<noteq> i) (savedItems s))]\<rparr>)"
proof -
  have "step env (Delete i) s = handleDelete i s" if "rendered s" "item_id (current s) \<noteq> i"
  proof -
    from that have "rendered (handleDelete i s)"
      by (simp add: handleDelete_other rendered_def)
    then show ?thesis
      by (simp add: useDebounceValue_rendered)
  qed
  then show ?thesis
    using handleDelete_other [of s i] by auto
qed

lemma pendingState_simps:
  "pendingState =
     \<lparr>current = alloc 4 mugs, savedItems = [alloc 1 itemA, alloc 2 itemB],
      savedItemsRef = [alloc 1 itemA, alloc 2 itemB], hasMounted = True,
      debouncedCurrent = alloc 3 (mugs\<lparr>quantity := Fin 0\<rparr>), previousValueRef = alloc 4 mugs,
      debounceTimer = Some (alloc 4 mugs), timer = Some (alloc 3 (mugs\<lparr>quantity := Fin 0\<rparr>)),
      writes = [], nextAddr = 5, nanoidCalls = 1\<rparr>"
  by (simp add: pendingState_def mount_simps exampleEnv_def edit_def useDebounceValue_def
      handleNameChange_def handleNumberChange_def debounceElapsed_def autosaveEffect_def
      isEmpty_def str_or_def js_or0_def alloc_def createEmptyItem_def mugs_def Let_def)

theorem handleDelete_frame_witness:
  "rendered pendingState \<and> item_id (current pendingState) \<noteq> ''a'' \<and>
   debounceTimer pendingState = Some (current pendingState) \<and>
   timer pendingState = Some (debouncedCurrent pendingState) \<and>
   step exampleEnv (Delete ''a'') pendingState =
     pendingState\<lparr>savedItems := [alloc 2 itemB], savedItemsRef := [alloc 2 itemB],
       writes := [[itemB]]\<rparr>"
proof -
  have r: "rendered pendingState \<and> item_id (current pendingState) \<noteq> ''a''"
    by (simp add: pendingState_simps rendered_def alloc_def mugs_def)
  have f: "filter (\<lambda>item. item_id item \<noteq> ''a'') (savedItems pendingState) = [alloc 2 itemB]"
    by (simp add: pendingState_simps alloc_def itemA_def itemB_def createEmptyItem_def)
  have w: "writes pendingState = []" "map fields_of [alloc 2 itemB] = [itemB]"
    by (simp_all add: pendingState_simps alloc_def fields_of_def)
  have p: "debounceTimer pendingState = Some (current pendingState)"
    "timer pendingState = Some (debouncedCurrent pendingState)"
    by (simp_all add: pendingState_simps)
  from handleDelete_frame [of pendingState "''a''" exampleEnv]
  have "rendered pendingState \<and> item_id (current pendingState) \<noteq> ''a'' \<longrightarrow>
      step exampleEnv (Delete ''a'') pendingState =
        pendingState\<lparr>savedItems := [alloc 2 itemB], savedItemsRef := [alloc 2 itemB],
          writes := [] @ [[itemB]]\<rparr>"
    unfolding f w by (rule conjunct2)
  with r have "step exampleEnv (Delete ''a'') pendingState =
     pendingState\<lparr>savedItems := [alloc 2 itemB], savedItemsRef := [alloc 2 itemB],
       writes := [] @ [[itemB]]\<rparr>"
    by blast
  then have "step exampleEnv (Delete ''a'') pendingState =
     pendingState\<lparr>savedItems := [alloc 2 itemB], savedItemsRef := [alloc 2 itemB],
       writes := [[itemB]]\<rparr>"
    by (simp only: append_Nil)
  with r p show ?thesis by simp
qed

section \<open>Properties of the name\<close>

text \<open>
  C9, as stated, fails: a stored record whose name is the empty string is loaded with the
  empty name, and when such an item is in the loaded collection and is opened as the
  draft, the autosave writes it with the empty name.
\<close>

theorem empty_name_counterexample:
  "map (\<lambda>r. r ''name'') (loadSavedItems (Inr (Some emptyNamePayload)) exampleParse) = [Some (JStr [])] \<and>
   writes (run exampleEnv [Load ''a'', DebounceElapsed, TimeoutFired] (mount [unnamed])) = [[unnamed]] \<and>
   name unnamed = []"
proof -
  have "map (\<lambda>r. r ''name'') (loadSavedItems (Inr (Some emptyNamePayload)) exampleParse) = [Some (JStr [])]"
    by (simp add: loadSavedItems_def loadSavedItems_try_def exampleParse_def examplePayload_def
        emptyNamePayload_def emptyNameParsed_def recoverItem_def)
  moreover have "writes (run exampleEnv [Load ''a'', DebounceElapsed, TimeoutFired] (mount [unnamed])) = [[unnamed]]"
    by (simp add: mount_simps exampleEnv_def handleLoad_def useDebounceValue_def
        debounceElapsed_def autosaveEffect_def isEmpty_def timeoutFired_def upsertItem_app_def
        upsertItem_def persistItems_def str_or_def alloc_def fields_of_def unnamed_def itemA_def
        createEmptyItem_def Let_def)
  moreover have "name unnamed = []"
    by (simp add: unnamed_def)
  ultimately show ?thesis by simp
qed

lemma name_fields_of [simp]: "name (fields_of ob) = name ob"
  by (simp add: fields_of_def)

lemma name_alloc [simp]: "name (alloc a item) = name item"
  by (simp add: alloc_def)

lemma name_handleNameChange: "name (handleNameChange nid v prev) \<noteq> []"
  by (simp add: handleNameChange_def str_or_def)

lemma name_handleNumberChange: "name (handleNumberChange N nid field v prev) = name prev"
  by (cases field) (simp_all add: handleNumberChange_def)

lemma name_handleProfitChange: "name (handleProfitChange N nid v prev) = name prev"
  by (simp add: handleProfitChange_def Let_def)

lemma noEmptyName_fields_of [simp]: "noEmptyName (map fields_of obs) = noEmptyName obs"
  by (simp add: noEmptyName_def list_all_iff)

lemma noEmptyName_filter: "noEmptyName items \<Longrightarrow> noEmptyName (filter P items)"
  by (simp add: noEmptyName_def list_all_iff)

lemma noEmptyName_allocAll [simp]: "noEmptyName (allocAll a items) = noEmptyName items"
  by (induction items arbitrary: a) (simp_all add: noEmptyName_def)

lemma noEmptyName_find:
  "noEmptyName items \<Longrightarrow> find P items = Some item \<Longrightarrow> name item \<noteq> []"
  by (induction items) (auto simp: noEmptyName_def split: if_splits)

lemma upsertItem_noEmptyName:
  assumes "noEmptyName saved" and "name item \<noteq> []"
  shows "noEmptyName (fst (upsertItem nid saved item))"
  using assms by (auto simp: upsertItem_def noEmptyName_def list_all_iff Let_def)

lemma named_useDebounceValue: "named s \<Longrightarrow> named (useDebounceValue s)"
  by (simp add: named_def useDebounceValue_def)

lemma named_edit:
  assumes "named s" and "\<And>nid prev. name prev \<noteq> [] \<Longrightarrow> name (updater nid prev) \<noteq> []"
  shows "named (edit env updater s)"
  using assms by (simp add: named_def edit_def)

lemma named_handleLoad: "named s \<Longrightarrow> named (handleLoad i s)"
proof (cases "find (\<lambda>saved. item_id saved = i) (savedItems s)")
  case None
  then show "named s \<Longrightarrow> named (handleLoad i s)"
    by (simp add: handleLoad_def)
next
  case (Some item)
  assume n: "named s"
  then have "name item \<noteq> []"
    using Some noEmptyName_find by (auto simp: named_def)
  with n Some show ?thesis
    by (simp add: handleLoad_def named_def)
qed

lemma named_handleDelete: "named s \<Longrightarrow> named (handleDelete i s)"
  by (simp add: named_def handleDelete_def persistItems_def noEmptyName_filter
      createEmptyItem_def Let_def)

lemma named_handleNew: "named s \<Longrightarrow> named (handleNew s)"
  by (simp add: named_def handleNew_def createEmptyItem_def)

lemma named_debounceElapsed: "named s \<Longrightarrow> named (debounceElapsed s)"
  by (auto simp: named_def debounceElapsed_def autosaveEffect_def useDebounceValue_def Let_def
      split: option.splits)

lemma named_timeoutFired:
  assumes "named s"
  shows "named (timeoutFired env s)"
proof (cases "timer s")
  case None
  with assms show ?thesis
    by (simp add: timeoutFired_def)
next
  case (Some v)
  with assms have "name (v\<lparr>addr := nextAddr s\<rparr>) \<noteq> []" and "noEmptyName (savedItemsRef s)"
    by (simp_all add: named_def)
  then have "noEmptyName (fst (upsertItem (nanoid env (nanoidCalls s)) (savedItemsRef s) (v\<lparr>addr := nextAddr s\<rparr>)))"
    by (intro upsertItem_noEmptyName)
  with assms Some show ?thesis
    by (simp add: named_def timeoutFired_def upsertItem_app_def persistItems_def case_prod_beta)
qed

lemma named_step: "named s \<Longrightarrow> named (step env e s)"
proof (cases e)
  case (NumberChange field v)
  then show "named s \<Longrightarrow> named (step env e s)"
    by (simp add: named_useDebounceValue named_edit name_handleNumberChange)
next
  case (NameChange v)
  then show "named s \<Longrightarrow> named (step env e s)"
    by (simp add: named_useDebounceValue named_edit name_handleNameChange)
next
  case (ProfitChange v)
  then show "named s \<Longrightarrow> named (step env e s)"
    by (simp add: named_useDebounceValue named_edit name_handleProfitChange)
next
  case (Load i)
  then show "named s \<Longrightarrow> named (step env e s)"
    by (simp add: named_useDebounceValue named_handleLoad)
next
  case (Delete i)
  then show "named s \<Longrightarrow> named (step env e s)"
    by (simp add: named_useDebounceValue named_handleDelete)
next
  case New
  then show "named s \<Longrightarrow> named (step env e s)"
    by (simp add: named_useDebounceValue named_handleNew)
next
  case DebounceElapsed
  then show "named s \<Longrightarrow> named (step env e s)"
    by (simp add: named_debounceElapsed)
next
  case TimeoutFired
  then show "named s \<Longrightarrow> named (step env e s)"
    by (simp add: named_useDebounceValue named_timeoutFired)
qed

lemma named_run: "named s \<Longrightarrow> named (run env es s)"
  by (induction es arbitrary: s) (simp_all add: named_step)

lemma named_mount: "noEmptyName loaded \<Longrightarrow> named (mount loaded)"
  by (simp add: mount_simps named_def createEmptyItem_def)

lemma recoverItem_name:
  assumes "recoverItem x = Inr r"
  shows "r ''name'' = (case ownProps x ''name'' of Some n \<Rightarrow> Some n | None \<Rightarrow> Some (JStr ''Untitled''))"
proof -
  from assms have "x \<noteq> JNull" by (auto simp: recoverItem_def)
  with assms have "r = recovered x" by (simp add: recoverItem_Inr)
  then show ?thesis
    by (simp add: recovered_field itemProps_def createEmptyItem_def split: option.splits)
qed

text \<open>
  C9, amended. If no item of the loaded collection has an empty name, then after any
  sequence of edits, loads, resets, deletes, ends of the quiet period and timeouts no item
  of any payload written to the durable medium has an empty name, nor has an item of the
  saved collection, nor the draft. Editing the name stores \<open>Untitled\<close> for an empty
  input, and the empty item is named \<open>Untitled\<close>. Loading gives a record that has no
  name the name \<open>Untitled\<close> and keeps a name that the record has, so that a loaded name
  is the empty string exactly when the stored one is.
\<close>

theorem names_never_empty:
  "(list_all (\<lambda>item. name item \<noteq> []) loaded \<longrightarrow>
      list_all (\<lambda>payload. list_all (\<lambda>item. name item \<noteq> []) payload)
        (writes (run env es (mount loaded))) \<and>
      list_all (\<lambda>item. name item \<noteq> []) (savedItems (run env es (mount loaded))) \<and>
      name (current (run env es (mount loaded))) \<noteq> []) \<and>
   name (handleNameChange nid v prev) = (if v = [] then ''Untitled'' else v) \<and>
   name createEmptyItem = ''Untitled'' \<and>
   (recoverItem x = Inr r \<and> ownProps x ''name'' = None \<longrightarrow> r ''name'' = Some (JStr ''Untitled'')) \<and>
   (recoverItem x = Inr r \<and> ownProps x ''name'' = Some n \<longrightarrow> r ''name'' = Some n) \<and>
   (recoverItem x = Inr r \<longrightarrow>
      (r ''name'' = Some (JStr []) \<longleftrightarrow> ownProps x ''name'' = Some (JStr [])))"
proof -
  have "list_all (\<lambda>payload. list_all (\<lambda>item. name item \<noteq> []) payload)
        (writes (run env es (mount loaded))) \<and>
      list_all (\<lambda>item. name item \<noteq> []) (savedItems (run env es (mount loaded))) \<and>
      name (current (run env es (mount loaded))) \<noteq> []"
    if "list_all (\<lambda>item. name item \<noteq> []) loaded"
  proof -
    from that have "named (run env es (mount loaded))"
      by (intro named_run named_mount) (simp add: noEmptyName_def)
    then show ?thesis
      by (simp add: named_def noEmptyName_def [abs_def])
  qed
  moreover have "r ''name'' = Some (JStr ''Untitled'')"
    if "recoverItem x = Inr r \<and> ownProps x ''name'' = None"
    using that recoverItem_name [of x r] by simp
  moreover have "r ''name'' = Some n"
    if "recoverItem x = Inr r \<and> ownProps x ''name'' = Some n"
    using that recoverItem_name [of x r] by simp
  moreover have "r ''name'' = Some (JStr []) \<longleftrightarrow> ownProps x ''name'' = Some (JStr [])"
    if "recoverItem x = Inr r"
    using recoverItem_name [OF that] by (simp split: option.splits)
  moreover have "name (handleNameChange nid v prev) = (if v = [] then ''Untitled'' else v)"
    by (simp add: handleNameChange_def str_or_def)
  moreover have "name createEmptyItem = ''Untitled''"
    by (simp add: createEmptyItem_def)
  ultimately show ?thesis by blast
qed

theorem names_never_empty_witness:
  "list_all (\<lambda>item. name item \<noteq> []) [itemA] \<and>
   writes (run exampleEnv [NameChange [], DebounceElapsed, TimeoutFired] (mount [itemA])) =
     [[itemA, createEmptyItem\<lparr>item_id := ''x''\<rparr>]] \<and>
   name (current (run exampleEnv [NameChange [], DebounceElapsed, TimeoutFired] (mount [itemA]))) = ''Untitled'' \<and>
   recoverItem (JNum (Fin 7)) = Inr (recovered (JNum (Fin 7))) \<and>
   ownProps (JNum (Fin 7)) ''name'' = None \<and>
   recovered (JNum (Fin 7)) ''name'' = Some (JStr ''Untitled'')"
proof -
  have l: "list_all (\<lambda>item. name item \<noteq> []) [itemA]"
    by (simp add: itemA_def)
  have w: "writes (run exampleEnv [NameChange [], DebounceElapsed, TimeoutFired] (mount [itemA])) =
     [[itemA, createEmptyItem\<lparr>item_id := ''x''\<rparr>]]"
    and c: "name (current (run exampleEnv [NameChange [], DebounceElapsed, TimeoutFired] (mount [itemA]))) = ''Untitled''"
    by (simp_all add: mount_simps exampleEnv_def edit_def handleNameChange_def useDebounceValue_def
        debounceElapsed_def autosaveEffect_def isEmpty_def timeoutFired_def upsertItem_app_def
        upsertItem_def persistItems_def str_or_def alloc_def fields_of_def itemA_def
        createEmptyItem_def Let_def)
  have r: "recoverItem (JNum (Fin 7)) = Inr (recovered (JNum (Fin 7)))"
    "ownProps (JNum (Fin 7)) ''name'' = None"
    by (simp_all add: recoverItem_def recovered_def)
  from names_never_empty [of "[itemA]" exampleEnv "[NameChange [], DebounceElapsed, TimeoutFired]"
      "''x''" "[]" "alloc 0 createEmptyItem" "JNum (Fin 7)" "recovered (JNum (Fin 7))"] l w c r
  show ?thesis by simp
qed

end
